theory Spec2Isabelle
  imports Main "HOL-Library.Sublist" "HOL-Library.Multiset"
begin

section \<open>Surrealigrate: a shallow embedding of \<^verbatim>\<open>src/index.js\<close>\<close>

text \<open>
  The program discovers migration scripts in a directory, reads the current version from
  a ledger table of the database, and applies (\<^verbatim>\<open>migrate\<close>) or reverts
  (\<^verbatim>\<open>rollback\<close>) the scripts between the current and the target version.

  The embedding follows the source function by function. JavaScript values are modelled
  as follows:
  \<^item> a string is a \<open>string\<close>; file names are the entries \<^verbatim>\<open>fs.readdir\<close> returns, so
    they contain no path separator;
  \<^item> a number is a \<open>jsnum\<close>: \<open>NaN\<close>, \<open>-Infinity\<close> or an integer. Integers are exact
    (the source's doubles are exact up to \<open>2^53\<close>);
  \<^item> \<^verbatim>\<open>undefined\<close> is \<open>None\<close>;
  \<^item> an object used as a dictionary is an association list in insertion order;
  \<^item> a thrown error is the \<open>Inl\<close> of a sum; \<^verbatim>\<open>process.exit(1)\<close> is the error
    \<open>Exit\<close>, which no \<^verbatim>\<open>catch\<close> of the source intercepts;
  \<^item> the database and the logger are the \<open>world\<close> record that every effectful
    function takes and returns.
\<close>

subsection \<open>Numbers\<close>

datatype jsnum = NaN | NegInf | Fin int

text \<open>The relational operators of JavaScript: every comparison with \<open>NaN\<close> is false.\<close>

fun js_lt :: "jsnum \<Rightarrow> jsnum \<Rightarrow> bool" where
  "js_lt NaN _ = False"
| "js_lt _ NaN = False"
| "js_lt NegInf NegInf = False"
| "js_lt NegInf (Fin _) = True"
| "js_lt (Fin _) NegInf = False"
| "js_lt (Fin a) (Fin b) = (a < b)"

fun js_le :: "jsnum \<Rightarrow> jsnum \<Rightarrow> bool" where
  "js_le NaN _ = False"
| "js_le _ NaN = False"
| "js_le NegInf _ = True"
| "js_le (Fin _) NegInf = False"
| "js_le (Fin a) (Fin b) = (a \<le> b)"

definition js_gt :: "jsnum \<Rightarrow> jsnum \<Rightarrow> bool" where
  "js_gt a b = js_lt b a"

definition js_ge :: "jsnum \<Rightarrow> jsnum \<Rightarrow> bool" where
  "js_ge a b = js_le b a"

text \<open>Strict equality \<^verbatim>\<open>===\<close> on numbers: \<open>NaN\<close> differs from itself.\<close>

fun js_eq :: "jsnum \<Rightarrow> jsnum \<Rightarrow> bool" where
  "js_eq NaN _ = False"
| "js_eq _ NaN = False"
| "js_eq a b = (a = b)"

text \<open>
  Subtraction, on the numbers the source subtracts: the results of \<^verbatim>\<open>parseInt\<close>
  (an integer or \<open>NaN\<close>) and the current version. \<open>-Infinity\<close> minus an integer is
  \<open>-Infinity\<close>; every other difference that involves \<open>NaN\<close> or \<open>-Infinity\<close> is
  outside what the source computes and is \<open>NaN\<close> here.
\<close>

fun js_sub :: "jsnum \<Rightarrow> jsnum \<Rightarrow> jsnum" where
  "js_sub (Fin a) (Fin b) = Fin (a - b)"
| "js_sub NegInf (Fin _) = NegInf"
| "js_sub (Fin _) NegInf = NaN"
| "js_sub NegInf NegInf = NaN"
| "js_sub NaN _ = NaN"
| "js_sub (Fin _) NaN = NaN"
| "js_sub NegInf NaN = NaN"

text \<open>
  \<^verbatim>\<open>Math.max(...xs)\<close>: \<open>-Infinity\<close> for no argument, \<open>NaN\<close> as soon as one argument
  is \<open>NaN\<close>, the greatest argument otherwise.
\<close>

fun js_max2 :: "jsnum \<Rightarrow> jsnum \<Rightarrow> jsnum" where
  "js_max2 NaN _ = NaN"
| "js_max2 _ NaN = NaN"
| "js_max2 NegInf b = b"
| "js_max2 a NegInf = a"
| "js_max2 (Fin a) (Fin b) = Fin (max a b)"

definition Math_max :: "jsnum list \<Rightarrow> jsnum" where
  "Math_max xs = foldl js_max2 NegInf xs"

subsection \<open>Strings\<close>

fun starts_with :: "string \<Rightarrow> string \<Rightarrow> bool" where
  "starts_with _ [] = True"
| "starts_with [] (_ # _) = False"
| "starts_with (c # cs) (p # ps) = (c = p \<and> starts_with cs ps)"

text \<open>\<^verbatim>\<open>s.includes(sub)\<close>\<close>

fun str_includes :: "string \<Rightarrow> string \<Rightarrow> bool" where
  "str_includes [] sub = starts_with [] sub"
| "str_includes (c # cs) sub = (starts_with (c # cs) sub \<or> str_includes cs sub)"

text \<open>\<^verbatim>\<open>s.split(sep)\<close> for a separator of one character: never the empty list.\<close>

fun split_on :: "char \<Rightarrow> string \<Rightarrow> string list" where
  "split_on sep [] = [[]]"
| "split_on sep (c # cs) =
     (if c = sep then [] # split_on sep cs
      else (case split_on sep cs of
              [] \<Rightarrow> [[c]]
            | t # ts \<Rightarrow> (c # t) # ts))"

text \<open>\<^verbatim>\<open>parts.join(sep)\<close>\<close>

fun join_with :: "string \<Rightarrow> string list \<Rightarrow> string" where
  "join_with sep [] = []"
| "join_with sep [p] = p"
| "join_with sep (p # q # ps) = p @ sep @ join_with sep (q # ps)"

text \<open>
  \<^verbatim>\<open>path.basename(file, ext)\<close> on a name without separator: the name without the
  suffix \<open>ext\<close> when it ends with it, the empty string when the name is \<open>ext\<close> itself.
\<close>

definition basename_ext :: "string \<Rightarrow> string \<Rightarrow> string" where
  "basename_ext file ext =
     (if file = ext then []
      else if ext \<noteq> [] \<and> suffix ext file then take (length file - length ext) file
      else file)"

text \<open>\<^verbatim>\<open>path.basename(p)\<close>: what follows the last separator.\<close>

definition basename :: "string \<Rightarrow> string" where
  "basename p = rev (takeWhile (\<lambda>c. c \<noteq> CHR ''/'') (rev p))"

subsection \<open>\<^verbatim>\<open>parseInt\<close>\<close>

text \<open>
  \<^verbatim>\<open>parseInt(s)\<close> with no radix: leading white space is skipped, then an optional sign,
  then an optional \<^verbatim>\<open>0x\<close>/\<^verbatim>\<open>0X\<close> (which selects radix 16), then the longest run of
  digits of the radix. No digit gives \<open>NaN\<close>; whatever follows the digits is ignored.
  White space is the ASCII white space (the source's Unicode white space beyond ASCII
  is not a single \<open>char\<close> here).
\<close>

definition is_space :: "char \<Rightarrow> bool" where
  "is_space c = (c \<in> set [CHR '' '', CHR 0x09, CHR 0x0A, CHR 0x0B, CHR 0x0C, CHR 0x0D])"

definition digit_value :: "char \<Rightarrow> nat option" where
  "digit_value c =
     (let n = of_char c :: nat in
      if 48 \<le> n \<and> n \<le> 57 then Some (n - 48)
      else if 97 \<le> n \<and> n \<le> 102 then Some (n - 87)
      else if 65 \<le> n \<and> n \<le> 70 then Some (n - 55)
      else None)"

definition is_digit_of :: "nat \<Rightarrow> char \<Rightarrow> bool" where
  "is_digit_of radix c = (case digit_value c of None \<Rightarrow> False | Some d \<Rightarrow> d < radix)"

definition digits_value :: "nat \<Rightarrow> string \<Rightarrow> int" where
  "digits_value radix ds =
     foldl (\<lambda>acc c. acc * int radix + (case digit_value c of None \<Rightarrow> 0 | Some d \<Rightarrow> int d)) 0 ds"

definition parse_digits :: "nat \<Rightarrow> string \<Rightarrow> int option" where
  "parse_digits radix s =
     (let z = takeWhile (is_digit_of radix) s in
      if z = [] then None else Some (digits_value radix z))"

definition parse_unsigned :: "string \<Rightarrow> int option" where
  "parse_unsigned s =
     (if starts_with s ''0x'' \<or> starts_with s ''0X'' then parse_digits 16 (drop 2 s)
      else parse_digits 10 s)"

definition parseInt :: "string \<Rightarrow> jsnum" where
  "parseInt str =
     (let s = dropWhile is_space str;
          neg = starts_with s ''-'';
          s' = (if starts_with s ''-'' \<or> starts_with s ''+'' then drop 1 s else s)
      in case parse_unsigned s' of
           None \<Rightarrow> NaN
         | Some n \<Rightarrow> Fin (if neg then - n else n))"

subsection \<open>The outside world: file system, database, logger\<close>

text \<open>
  The statements the source sends through \<^verbatim>\<open>db.query\<close>. \<open>Script c\<close> is the content
  \<open>c\<close> of a migration file, sent verbatim.
\<close>

datatype query =
    InfoForDb
  | DefineMigrations
  | SelectLatest
  | CreateRow int "string option"
  | DeleteRows int
  | BeginTransaction
  | CommitTransaction
  | CancelTransaction
  | Script string

datatype error =
    DbError query      \<comment> \<open>the error \<^verbatim>\<open>db.query\<close> throws for a statement\<close>
  | FsError string     \<comment> \<open>\<^verbatim>\<open>fs.readFile\<close> fails on a path\<close>
  | TypeError          \<comment> \<open>thrown by the runtime, as by \<^verbatim>\<open>path.join(directory, undefined)\<close>\<close>
  | Exit               \<comment> \<open>\<^verbatim>\<open>process.exit(1)\<close>\<close>

datatype level = Info | Warn | Error

text \<open>The messages of the source, one constructor for each template.\<close>

datatype message =
    Connected
  | Created_table
  | Failed_to_connect
  | Failed_to_read_files
  | Failed_to_get_version
  | Failed_to_get_version_info
  | Set_version int "string option"
  | Failed_to_set_version
  | Applied string
  | Reverted string
  | Failed_to_apply string
  | Failed_to_revert string
  | Use_rollback int jsnum
  | Use_migrate jsnum int
  | Up_to_date
  | Migrating_to string string
  | Rolling_back string string

text \<open>
  The state the program acts on. \<open>rows\<close> is the table \<^verbatim>\<open>migrations\<close> (the ledger),
  a row being its version and its optional title, in the order of creation;
  \<open>tables_migrations\<close> says whether \<^verbatim>\<open>INFO FOR DB\<close> reports the table;
  \<open>index_version\<close> whether the unique index on \<^verbatim>\<open>version\<close> is defined. \<open>sent\<close> and
  \<open>logged\<close> record, oldest first, the statements sent to the database and the
  logger's output.
\<close>

record world =
  tables_migrations :: bool
  index_version :: bool
  rows :: "(int \<times> string option) list"
  sent :: "query list"
  logged :: "(level \<times> message) list"

text \<open>
  What one invocation finds outside: the directory listings, the file contents, whether
  the connection can be made, whether the ledger can be read, and which scripts the
  database accepts. A script's own effect on the database is not represented beyond the
  statements sent; scripts are taken not to touch the table \<^verbatim>\<open>migrations\<close>.
\<close>

record env =
  readdir :: "string \<Rightarrow> string list option"
  readFile :: "string \<Rightarrow> string option"
  connect_ok :: bool
  select_ok :: bool
  script_ok :: "string \<Rightarrow> bool"

definition logger :: "level \<Rightarrow> message \<Rightarrow> world \<Rightarrow> world" where
  "logger l m w = w\<lparr>logged := logged w @ [(l, m)]\<rparr>"

definition send :: "query \<Rightarrow> world \<Rightarrow> world" where
  "send q w = w\<lparr>sent := sent w @ [q]\<rparr>"

text \<open>
  \<^verbatim>\<open>SELECT * FROM migrations ORDER BY version DESC LIMIT 1\<close>: a row of greatest
  version, none for the empty table.
\<close>

fun latest_row :: "(int \<times> string option) list \<Rightarrow> (int \<times> string option) option" where
  "latest_row [] = None"
| "latest_row (r # rs) =
     (case latest_row rs of
        None \<Rightarrow> Some r
      | Some r' \<Rightarrow> if fst r' > fst r then Some r' else Some r)"

text \<open>
  \<^verbatim>\<open>db.query\<close>, one function for each statement. A statement that fails throws and
  changes nothing. \<^verbatim>\<open>CREATE\<close> fails on a version that is already in the table when
  the unique index is defined (\<^verbatim>\<open>DEFINE INDEX version ON migrations FIELDS version UNIQUE\<close>).
  The ledger query fails when the environment says so, a script when the database rejects
  it; the other statements are taken to succeed.
\<close>

definition query_info :: "world \<Rightarrow> bool \<times> world" where
  "query_info w = (tables_migrations w, send InfoForDb w)"

definition query_define :: "world \<Rightarrow> world" where
  "query_define w = (send DefineMigrations w)\<lparr>tables_migrations := True, index_version := True\<rparr>"

definition query_select ::
  "env \<Rightarrow> world \<Rightarrow> (error + (int \<times> string option) option) \<times> world" where
  "query_select e w =
     (if select_ok e then (Inr (latest_row (rows w)), send SelectLatest w)
      else (Inl (DbError SelectLatest), send SelectLatest w))"

definition query_create :: "int \<Rightarrow> string option \<Rightarrow> world \<Rightarrow> (error + unit) \<times> world" where
  "query_create v t w =
     (if index_version w \<and> v \<in> fst ` set (rows w)
      then (Inl (DbError (CreateRow v t)), send (CreateRow v t) w)
      else (Inr (), (send (CreateRow v t) w)\<lparr>rows := rows w @ [(v, t)]\<rparr>))"

definition query_delete :: "int \<Rightarrow> world \<Rightarrow> world" where
  "query_delete v w = (send (DeleteRows v) w)\<lparr>rows := filter (\<lambda>r. fst r \<noteq> v) (rows w)\<rparr>"

definition query_script :: "env \<Rightarrow> string \<Rightarrow> world \<Rightarrow> (error + unit) \<times> world" where
  "query_script e content w =
     (if script_ok e content then (Inr (), send (Script content) w)
      else (Inl (DbError (Script content)), send (Script content) w))"

subsection \<open>\<^verbatim>\<open>connectToDatabase\<close>\<close>

text \<open>
  \<open>connect_ok\<close> stands for the success of every step inside the \<^verbatim>\<open>try\<close>; on a failure
  the source logs and exits.
\<close>

definition connectToDatabase :: "env \<Rightarrow> world \<Rightarrow> (error + unit) \<times> world" where
  "connectToDatabase e w =
     (if \<not> connect_ok e then (Inl Exit, logger Error Failed_to_connect w)
      else
        let w1 = logger Info Connected w;
            (setup, w2) = query_info w1
        in if \<not> setup then (Inr (), logger Info Created_table (query_define w2))
           else (Inr (), w2))"

subsection \<open>\<^verbatim>\<open>getMigrationFiles\<close>\<close>

text \<open>
  A discovered unit: the object \<^verbatim>\<open>{ title, do, undo }\<close>. The mapping from version key
  to unit is an association list in insertion order.
\<close>

record mig =
  title :: string
  do_file :: "string option"
  undo_file :: "string option"

type_synonym migration_files = "(string \<times> mig) list"

text \<open>
  \<^verbatim>\<open>unit[action] = file\<close>. Only the properties \<^verbatim>\<open>do\<close>, \<^verbatim>\<open>undo\<close> and \<^verbatim>\<open>title\<close> are ever
  read, so a write to another property leaves the unit as it is.
\<close>

definition set_action :: "string \<Rightarrow> string \<Rightarrow> mig \<Rightarrow> mig" where
  "set_action action file u =
     (if action = ''do'' then u\<lparr>do_file := Some file\<rparr>
      else if action = ''undo'' then u\<lparr>undo_file := Some file\<rparr>
      else if action = ''title'' then u\<lparr>title := file\<rparr>
      else u)"

text \<open>
  The names every object inherits from \<^verbatim>\<open>Object.prototype\<close>. For such a version token
  \<^verbatim>\<open>acc[version]\<close> is already truthy, so the source creates no unit and its write lands
  on the inherited object, not on \<open>acc\<close>: the accumulator keeps its own keys. What such a
  write does to the runtime's shared objects is outside this model.
\<close>

definition inherited_names :: "string list" where
  "inherited_names =
     [''constructor'', ''__proto__'', ''hasOwnProperty'', ''isPrototypeOf'',
      ''propertyIsEnumerable'', ''toLocaleString'', ''toString'', ''valueOf'',
      ''__defineGetter__'', ''__defineSetter__'', ''__lookupGetter__'', ''__lookupSetter__'']"

fun update_unit :: "string \<Rightarrow> (mig \<Rightarrow> mig) \<Rightarrow> migration_files \<Rightarrow> migration_files" where
  "update_unit k f [] = []"
| "update_unit k f ((k', u) # rest) =
     (if k' = k then (k', f u) # rest else (k', u) # update_unit k f rest)"

text \<open>
  The body of the \<^verbatim>\<open>reduce\<close> callback, after the destructuring of the split name:
  the unit is created with its title when \<^verbatim>\<open>acc[version]\<close> is falsy, then the file is
  stored under the action.
\<close>

definition store_file ::
  "migration_files \<Rightarrow> string \<Rightarrow> string \<Rightarrow> string \<Rightarrow> string list \<Rightarrow> migration_files" where
  "store_file acc file version action titleParts =
     (if version \<in> set inherited_names then acc
      else
        let acc' = (if map_of acc version = None
                    then acc @ [(version, \<lparr>title = join_with ''.'' titleParts,
                                            do_file = None, undo_file = None\<rparr>)]
                    else acc)
        in update_unit version (set_action action file) acc')"

text \<open>
  \<^verbatim>\<open>const [version, action, ...titleParts] = path.basename(file, '.surql').split('.')\<close>.
  A name with a single part leaves \<^verbatim>\<open>action\<close> undefined, and the property written is
  then named \<^verbatim>\<open>undefined\<close>; \<^verbatim>\<open>split\<close> never returns the empty array.
\<close>

definition add_file :: "migration_files \<Rightarrow> string \<Rightarrow> migration_files" where
  "add_file acc file =
     (case split_on CHR ''.'' (basename_ext file ''.surql'') of
        [] \<Rightarrow> acc
      | [version] \<Rightarrow> store_file acc file version ''undefined'' []
      | version # action # titleParts \<Rightarrow> store_file acc file version action titleParts)"

definition is_migration_file :: "string \<Rightarrow> bool" where
  "is_migration_file file = (str_includes file ''.do.'' \<or> str_includes file ''.undo.'')"

text \<open>\<^verbatim>\<open>files.filter(...).reduce(..., {})\<close>\<close>

definition reduce_files :: "string list \<Rightarrow> migration_files" where
  "reduce_files files = foldl add_file [] (filter is_migration_file files)"

text \<open>A directory that cannot be read is logged and the process exits.\<close>

definition getMigrationFiles :: "env \<Rightarrow> string \<Rightarrow> world \<Rightarrow> (error + migration_files) \<times> world" where
  "getMigrationFiles e directory w =
     (case readdir e directory of
        None \<Rightarrow> (Inl Exit, logger Error Failed_to_read_files w)
      | Some files \<Rightarrow> (Inr (reduce_files files), w))"

text \<open>
  \<^verbatim>\<open>Object.keys\<close>: first the keys that are array indices (canonical decimal numerals
  below \<open>2^32 - 1\<close>) in ascending numeric order, then the other keys in insertion order.
\<close>

definition is_array_index :: "string \<Rightarrow> bool" where
  "is_array_index k =
     (k \<noteq> [] \<and> list_all (is_digit_of 10) k \<and> (k = ''0'' \<or> hd k \<noteq> CHR ''0'')
      \<and> digits_value 10 k < 4294967295)"

definition Object_keys :: "migration_files \<Rightarrow> string list" where
  "Object_keys obj =
     sort_key (digits_value 10) (filter is_array_index (map fst obj))
     @ filter (\<lambda>k. \<not> is_array_index k) (map fst obj)"

text \<open>
  \<^verbatim>\<open>keys.sort(compare)\<close>. The sort is stable, and for a comparator that is a
  consistent ordering every stable sort returns the list computed here (insertion from
  the right, an element staying in front of those it does not exceed). A comparator
  result \<open>NaN\<close> counts as \<open>0\<close>. When some key does not parse, the comparators below are
  not consistent orderings and the source's order is implementation-defined; the order
  computed here is then one of the possible orders, and is a permutation in any case.
\<close>

fun insort_cmp :: "('a \<Rightarrow> 'a \<Rightarrow> jsnum) \<Rightarrow> 'a \<Rightarrow> 'a list \<Rightarrow> 'a list" where
  "insort_cmp cmp x [] = [x]"
| "insort_cmp cmp x (y # ys) =
     (if js_gt (cmp x y) (Fin 0) then y # insort_cmp cmp x ys else x # y # ys)"

definition Array_sort :: "('a \<Rightarrow> 'a \<Rightarrow> jsnum) \<Rightarrow> 'a list \<Rightarrow> 'a list" where
  "Array_sort cmp xs = foldr (insort_cmp cmp) xs []"

text \<open>\<^verbatim>\<open>(a, b) => parseInt(a) - parseInt(b)\<close> and \<^verbatim>\<open>(a, b) => parseInt(b) - parseInt(a)\<close>\<close>

definition cmp_asc :: "string \<Rightarrow> string \<Rightarrow> jsnum" where
  "cmp_asc a b = js_sub (parseInt a) (parseInt b)"

definition cmp_desc :: "string \<Rightarrow> string \<Rightarrow> jsnum" where
  "cmp_desc a b = js_sub (parseInt b) (parseInt a)"

subsection \<open>The ledger: \<^verbatim>\<open>getCurrentVersion\<close>, \<^verbatim>\<open>setCurrentVersion\<close>\<close>

text \<open>
  \<^verbatim>\<open>result[0]?.[0]?.version || 0\<close>: the version of the latest row, \<open>0\<close> when there is
  none. A failing query is caught and logged, and \<open>0\<close> is returned.
\<close>

definition getCurrentVersion :: "env \<Rightarrow> world \<Rightarrow> int \<times> world" where
  "getCurrentVersion e w =
     (case query_select e w of
        (Inr result, w1) \<Rightarrow> ((case result of None \<Rightarrow> 0 | Some r \<Rightarrow> fst r), w1)
      | (Inl err, w1) \<Rightarrow> (0, logger Error Failed_to_get_version w1))"

text \<open>
  \<^verbatim>\<open>setCurrentVersion(version, title)\<close>: a row with the title when the title is truthy
  (a non-empty string), a row without title otherwise. A failure is logged and thrown
  again.
\<close>

definition setCurrentVersion :: "int \<Rightarrow> string \<Rightarrow> world \<Rightarrow> (error + unit) \<times> world" where
  "setCurrentVersion version ttl w =
     (let t = (if ttl \<noteq> [] then Some ttl else None) in
      (case query_create version t w of
         (Inr _, w1) \<Rightarrow> (Inr (), logger Info (Set_version version t) w1)
       | (Inl err, w1) \<Rightarrow> (Inl err, logger Error Failed_to_set_version w1)))"

subsection \<open>\<^verbatim>\<open>executeMigration\<close>\<close>

text \<open>
  \<^verbatim>\<open>path.join(directory, file)\<close> throws a \<open>TypeError\<close> when \<open>file\<close> is undefined. The
  source's normalisation of the joined path is not modelled: the path only names the
  file to read.
\<close>

definition path_join :: "string \<Rightarrow> string option \<Rightarrow> error + string" where
  "path_join directory file =
     (case file of
        None \<Rightarrow> Inl TypeError
      | Some f \<Rightarrow> Inr (if directory = [] then f else directory @ ''/'' @ f))"

text \<open>
  The file is read before the transaction begins; a read failure propagates unlogged.
  \<open>query_script\<close> stands for the two statements inside the \<^verbatim>\<open>try\<close> (the script and
  \<^verbatim>\<open>COMMIT TRANSACTION\<close>): when it fails, the \<^verbatim>\<open>catch\<close> sends
  \<^verbatim>\<open>CANCEL TRANSACTION\<close>, logs the file's name and throws the error again.
\<close>

definition executeMigration :: "env \<Rightarrow> string \<Rightarrow> string \<Rightarrow> world \<Rightarrow> (error + unit) \<times> world" where
  "executeMigration e filePath action w =
     (case readFile e filePath of
        None \<Rightarrow> (Inl (FsError filePath), w)
      | Some content \<Rightarrow>
          let w1 = send BeginTransaction w in
          (case query_script e content w1 of
             (Inr _, w2) \<Rightarrow>
               (Inr (),
                logger Info (if action = ''do'' then Applied (basename filePath)
                             else Reverted (basename filePath))
                  (send CommitTransaction w2))
           | (Inl err, w2) \<Rightarrow>
               (Inl err,
                logger Error (if action = ''do'' then Failed_to_apply (basename filePath)
                              else Failed_to_revert (basename filePath))
                  (send CancelTransaction w2))))"

subsection \<open>\<^verbatim>\<open>migrate\<close>\<close>

text \<open>
  \<^verbatim>\<open>toVersion ? parseInt(toVersion) : dflt\<close>: the option of the command line is a string
  or undefined, and the empty string is falsy.
\<close>

definition target_of :: "string option \<Rightarrow> jsnum \<Rightarrow> jsnum" where
  "target_of toVersion dflt =
     (case toVersion of
        None \<Rightarrow> dflt
      | Some s \<Rightarrow> if s \<noteq> [] then parseInt s else dflt)"

text \<open>
  The body of the \<^verbatim>\<open>for\<close> loop of \<^verbatim>\<open>migrate\<close> for a selected key \<open>version\<close>,
  \<open>v\<close> being \<^verbatim>\<open>parseInt(version)\<close>. Destructuring an undefined unit throws a
  \<open>TypeError\<close>.
\<close>

definition migrate_body ::
  "env \<Rightarrow> string \<Rightarrow> migration_files \<Rightarrow> string \<Rightarrow> int \<Rightarrow> world \<Rightarrow> (error + unit) \<times> world" where
  "migrate_body e directory migrationFiles version v w =
     (case map_of migrationFiles version of
        None \<Rightarrow> (Inl TypeError, w)
      | Some u \<Rightarrow>
          let w1 = logger Info (Migrating_to version (title u)) w in
          (case path_join directory (do_file u) of
             Inl err \<Rightarrow> (Inl err, w1)
           | Inr filePath \<Rightarrow>
               (case executeMigration e filePath ''do'' w1 of
                  (Inl err, w2) \<Rightarrow> (Inl err, w2)
                | (Inr _, w2) \<Rightarrow> setCurrentVersion v (title u) w2)))"

text \<open>
  The \<^verbatim>\<open>for\<close> loop of \<^verbatim>\<open>migrate\<close>. The condition
  \<^verbatim>\<open>parseInt(version) > currentVersion && parseInt(version) <= targetVersion\<close> is false
  for a key that parses to \<open>NaN\<close>. A throw inside the body leaves the loop.
\<close>

fun migrate_loop ::
  "env \<Rightarrow> string \<Rightarrow> migration_files \<Rightarrow> int \<Rightarrow> jsnum \<Rightarrow> string list \<Rightarrow> world
   \<Rightarrow> (error + unit) \<times> world" where
  "migrate_loop e directory migrationFiles cur targetVersion [] w = (Inr (), w)"
| "migrate_loop e directory migrationFiles cur targetVersion (version # rest) w =
     (if js_gt (parseInt version) (Fin cur) \<and> js_le (parseInt version) targetVersion then
        (case parseInt version of
           Fin v \<Rightarrow>
             (case migrate_body e directory migrationFiles version v w of
                (Inl err, w') \<Rightarrow> (Inl err, w')
              | (Inr _, w') \<Rightarrow>
                  migrate_loop e directory migrationFiles cur targetVersion rest w')
         | _ \<Rightarrow> migrate_loop e directory migrationFiles cur targetVersion rest w)
      else migrate_loop e directory migrationFiles cur targetVersion rest w)"

definition migrate :: "env \<Rightarrow> string \<Rightarrow> string option \<Rightarrow> world \<Rightarrow> (error + unit) \<times> world" where
  "migrate e directory toVersion w =
     (case connectToDatabase e w of
        (Inl err, w1) \<Rightarrow> (Inl err, w1)
      | (Inr _, w1) \<Rightarrow>
     (case getMigrationFiles e directory w1 of
        (Inl err, w2) \<Rightarrow> (Inl err, w2)
      | (Inr migrationFiles, w2) \<Rightarrow>
     (case getCurrentVersion e w2 of
        (cur, w3) \<Rightarrow>
          let versions = Array_sort cmp_asc (Object_keys migrationFiles);
              targetVersion = target_of toVersion (Math_max (map parseInt versions))
          in if js_lt targetVersion (Fin cur)
             then (Inr (), logger Warn (Use_rollback cur targetVersion) w3)
             else if js_eq targetVersion (Fin cur)
             then (Inr (), logger Info Up_to_date w3)
             else migrate_loop e directory migrationFiles cur targetVersion versions w3)))"

subsection \<open>\<^verbatim>\<open>rollback\<close>\<close>

text \<open>The body of the \<^verbatim>\<open>for\<close> loop of \<^verbatim>\<open>rollback\<close> for a selected key.\<close>

definition rollback_body ::
  "env \<Rightarrow> string \<Rightarrow> migration_files \<Rightarrow> string \<Rightarrow> int \<Rightarrow> world \<Rightarrow> (error + unit) \<times> world" where
  "rollback_body e directory migrationFiles version v w =
     (case map_of migrationFiles version of
        None \<Rightarrow> (Inl TypeError, w)
      | Some u \<Rightarrow>
          let w1 = logger Info (Rolling_back version (title u)) w in
          (case path_join directory (undo_file u) of
             Inl err \<Rightarrow> (Inl err, w1)
           | Inr filePath \<Rightarrow>
               (case executeMigration e filePath ''undo'' w1 of
                  (Inl err, w2) \<Rightarrow> (Inl err, w2)
                | (Inr _, w2) \<Rightarrow> (Inr (), query_delete v w2))))"

fun rollback_loop ::
  "env \<Rightarrow> string \<Rightarrow> migration_files \<Rightarrow> int \<Rightarrow> jsnum \<Rightarrow> string list \<Rightarrow> world
   \<Rightarrow> (error + unit) \<times> world" where
  "rollback_loop e directory migrationFiles cur targetVersion [] w = (Inr (), w)"
| "rollback_loop e directory migrationFiles cur targetVersion (version # rest) w =
     (if js_le (parseInt version) (Fin cur) \<and> js_gt (parseInt version) targetVersion then
        (case parseInt version of
           Fin v \<Rightarrow>
             (case rollback_body e directory migrationFiles version v w of
                (Inl err, w') \<Rightarrow> (Inl err, w')
              | (Inr _, w') \<Rightarrow>
                  rollback_loop e directory migrationFiles cur targetVersion rest w')
         | _ \<Rightarrow> rollback_loop e directory migrationFiles cur targetVersion rest w)
      else rollback_loop e directory migrationFiles cur targetVersion rest w)"

definition rollback :: "env \<Rightarrow> string \<Rightarrow> string option \<Rightarrow> world \<Rightarrow> (error + unit) \<times> world" where
  "rollback e directory toVersion w =
     (case connectToDatabase e w of
        (Inl err, w1) \<Rightarrow> (Inl err, w1)
      | (Inr _, w1) \<Rightarrow>
     (case getMigrationFiles e directory w1 of
        (Inl err, w2) \<Rightarrow> (Inl err, w2)
      | (Inr migrationFiles, w2) \<Rightarrow>
     (case getCurrentVersion e w2 of
        (cur, w3) \<Rightarrow>
          let versions = Array_sort cmp_desc (Object_keys migrationFiles);
              targetVersion = target_of toVersion (Fin (cur - 1))
          in if js_ge targetVersion (Fin cur)
             then (Inr (), logger Warn (Use_migrate targetVersion cur) w3)
             else rollback_loop e directory migrationFiles cur targetVersion versions w3)))"

subsection \<open>\<^verbatim>\<open>getCurrentVersionInfo\<close>, \<^verbatim>\<open>getInfo\<close>\<close>

text \<open>
  \<^verbatim>\<open>result[0]?.[0] || { version: 0, title: 'No migrations applied' }\<close>: the latest row
  (its title may be undefined), or the default.
\<close>

definition getCurrentVersionInfo :: "env \<Rightarrow> world \<Rightarrow> (int \<times> string option) \<times> world" where
  "getCurrentVersionInfo e w =
     (case query_select e w of
        (Inr result, w1) \<Rightarrow>
          ((case result of None \<Rightarrow> (0, Some ''No migrations applied'') | Some r \<Rightarrow> r), w1)
      | (Inl err, w1) \<Rightarrow>
          ((0, Some ''Error retrieving version info''),
           logger Error Failed_to_get_version_info w1))"

record info =
  currentVersion :: int
  currentVersionTitle :: "string option"
  latestVersion :: jsnum
  pendingMigrations :: "(string \<times> string) list"

definition getInfo :: "env \<Rightarrow> string \<Rightarrow> world \<Rightarrow> (error + info) \<times> world" where
  "getInfo e directory w =
     (case connectToDatabase e w of
        (Inl err, w1) \<Rightarrow> (Inl err, w1)
      | (Inr _, w1) \<Rightarrow>
     (case getMigrationFiles e directory w1 of
        (Inl err, w2) \<Rightarrow> (Inl err, w2)
      | (Inr migrationFiles, w2) \<Rightarrow>
     (case getCurrentVersionInfo e w2 of
        (currentVersionInfo, w3) \<Rightarrow>
          let versions = Array_sort cmp_asc (Object_keys migrationFiles)
          in (Inr \<lparr>currentVersion = fst currentVersionInfo,
                   currentVersionTitle = snd currentVersionInfo,
                   latestVersion = Math_max (map parseInt versions),
                   pendingMigrations =
                     map (\<lambda>version.
                            (version,
                             case map_of migrationFiles version of
                               None \<Rightarrow> ''Untitled''
                             | Some u \<Rightarrow> if title u \<noteq> [] then title u else ''Untitled''))
                       (filter (\<lambda>version. js_gt (parseInt version) (Fin (fst currentVersionInfo)))
                          versions)\<rparr>,
              w3))))"

section \<open>Observations and notions used in the statements\<close>

text \<open>
  The keys a run has started to execute, oldest first: the loop body of \<^verbatim>\<open>migrate\<close>
  and of \<^verbatim>\<open>rollback\<close> begins by logging the key it executes.
\<close>

fun started_key :: "level \<times> message \<Rightarrow> string list" where
  "started_key (Info, Migrating_to k t) = [k]"
| "started_key (Info, Rolling_back k t) = [k]"
| "started_key _ = []"

definition started :: "world \<Rightarrow> string list" where
  "started w = concat (map started_key (logged w))"

text \<open>The scripts sent to the database, oldest first.\<close>

fun script_of :: "query \<Rightarrow> string list" where
  "script_of (Script c) = [c]"
| "script_of _ = []"

definition scripts_sent :: "world \<Rightarrow> string list" where
  "scripts_sent w = concat (map script_of (sent w))"




text \<open>The selection conditions of the two loops, on a key.\<close>

definition apply_range :: "int \<Rightarrow> jsnum \<Rightarrow> string \<Rightarrow> bool" where
  "apply_range cur tgt k = (js_gt (parseInt k) (Fin cur) \<and> js_le (parseInt k) tgt)"

definition revert_range :: "int \<Rightarrow> jsnum \<Rightarrow> string \<Rightarrow> bool" where
  "revert_range cur tgt k = (js_le (parseInt k) (Fin cur) \<and> js_gt (parseInt k) tgt)"

text \<open>The integer a key parses to (\<open>0\<close> stands in for a key that does not parse).\<close>

definition version_of :: "string \<Rightarrow> int" where
  "version_of k = (case parseInt k of Fin v \<Rightarrow> v | _ \<Rightarrow> 0)"

text \<open>The ledger row \<^verbatim>\<open>migrate\<close> writes for a key.\<close>

definition row_of :: "migration_files \<Rightarrow> string \<Rightarrow> int \<times> string option" where
  "row_of mf k =
     (version_of k,
      case map_of mf k of
        None \<Rightarrow> None
      | Some u \<Rightarrow> if title u \<noteq> [] then Some (title u) else None)"


text \<open>
  The plans. The source has no plan value: a plan is the list of keys a loop selects, in
  the order the loop visits them. \<open>apply_target\<close> and \<open>revert_target\<close> are the
  \<^verbatim>\<open>targetVersion\<close> of \<^verbatim>\<open>migrate\<close> and of \<^verbatim>\<open>rollback\<close>.
\<close>

definition apply_target :: "string option \<Rightarrow> migration_files \<Rightarrow> jsnum" where
  "apply_target toVersion mf =
     target_of toVersion (Math_max (map parseInt (Array_sort cmp_asc (Object_keys mf))))"

definition revert_target :: "string option \<Rightarrow> int \<Rightarrow> jsnum" where
  "revert_target toVersion cur = target_of toVersion (Fin (cur - 1))"

definition apply_plan :: "migration_files \<Rightarrow> int \<Rightarrow> string option \<Rightarrow> string list" where
  "apply_plan mf cur toVersion =
     filter (apply_range cur (apply_target toVersion mf)) (Array_sort cmp_asc (Object_keys mf))"

definition revert_plan :: "migration_files \<Rightarrow> int \<Rightarrow> string option \<Rightarrow> string list" where
  "revert_plan mf cur toVersion =
     filter (revert_range cur (revert_target toVersion cur)) (Array_sort cmp_desc (Object_keys mf))"

subsection \<open>Concrete inputs\<close>

text \<open>
  A database on which nothing has run yet, and an environment over a directory
  \<^verbatim>\<open>migrations\<close> with the given entries: the content of a file is represented by its
  path, the connection and the ledger reads succeed, and the database rejects exactly
  the scripts listed in \<open>rejected\<close>.
\<close>

definition empty_world :: world where
  "empty_world =
     \<lparr>tables_migrations = False, index_version = False, rows = [], sent = [], logged = []\<rparr>"

definition example_env :: "string list \<Rightarrow> string list \<Rightarrow> env" where
  "example_env files rejected =
     \<lparr>readdir = (\<lambda>d. if d = ''migrations'' then Some files else None),
      readFile = (\<lambda>p. Some p),
      connect_ok = True,
      select_ok = True,
      script_ok = (\<lambda>c. c \<notin> set rejected)\<rparr>"

definition files3 :: "string list" where
  "files3 =
     [''2.do.b.surql'', ''1.do.a.surql'', ''1.undo.a.surql'', ''3.do.c.surql'',
      ''2.undo.b.surql'']"


text \<open>
  The example of the specification: the ledger is at version 5, the directory holds the
  forward scripts of versions 6, 7 and 8, and the database rejects the script of 7.
\<close>

definition world_at_5 :: world where
  "world_at_5 =
     \<lparr>tables_migrations = True, index_version = True, rows = [(5, Some ''e'')],
      sent = [], logged = []\<rparr>"

definition files678 :: "string list" where
  "files678 = [''6.do.a.surql'', ''7.do.b.surql'', ''8.do.c.surql'']"


text \<open>The ledger is at version 5 and the directory holds the forward scripts of 5 and 6.\<close>

definition files56 :: "string list" where
  "files56 = [''5.do.e.surql'', ''6.do.a.surql'']"



text \<open>
  The invariant of the ledger between runs: the versions are distinct, and the unique
  index is defined as soon as the table is reported or holds a row. The reachable states
  are those the three commands produce from the database on which nothing has run,
  whatever the environment of each run.
\<close>

definition ledger_inv :: "world \<Rightarrow> bool" where
  "ledger_inv w =
     (distinct (map fst (rows w))
      \<and> (tables_migrations w \<longrightarrow> index_version w)
      \<and> (rows w \<noteq> [] \<longrightarrow> index_version w))"

inductive reachable :: "world \<Rightarrow> bool" where
  reach_start: "reachable empty_world"
| reach_migrate: "reachable w \<Longrightarrow> reachable (snd (migrate e d tv w))"
| reach_rollback: "reachable w \<Longrightarrow> reachable (snd (rollback e d tv w))"
| reach_info: "reachable w \<Longrightarrow> reachable (snd (getInfo e d w))"

text \<open>
  The state of the database inside a run, after \<^verbatim>\<open>connectToDatabase\<close>: the table and its
  unique index are defined and the versions of the ledger are distinct.
\<close>

definition guarded :: "world \<Rightarrow> bool" where
  "guarded w = (index_version w \<and> tables_migrations w \<and> distinct (map fst (rows w)))"

section \<open>Basic facts about the operations\<close>

subsection \<open>Logger, statements and the loop bodies\<close>

lemma logger_simps [simp]:
  "rows (logger l m w) = rows w" "sent (logger l m w) = sent w"
  "logged (logger l m w) = logged w @ [(l, m)]"
  "tables_migrations (logger l m w) = tables_migrations w"
  "index_version (logger l m w) = index_version w"
  by (simp_all add: logger_def)

lemma send_simps [simp]:
  "rows (send q w) = rows w" "sent (send q w) = sent w @ [q]"
  "logged (send q w) = logged w"
  "tables_migrations (send q w) = tables_migrations w"
  "index_version (send q w) = index_version w"
  by (simp_all add: send_def)

lemma started_simps [simp]:
  "started (logger l m w) = started w @ started_key (l, m)"
  "started (send q w) = started w"
  "started (w\<lparr>rows := r\<rparr>) = started w"
  by (simp_all add: started_def)

lemma scripts_sent_simps [simp]:
  "scripts_sent (logger l m w) = scripts_sent w"
  "scripts_sent (send q w) = scripts_sent w @ script_of q"
  "scripts_sent (w\<lparr>rows := r\<rparr>) = scripts_sent w"
  by (simp_all add: scripts_sent_def)

lemma query_delete_simps [simp]:
  "rows (query_delete v w) = filter (\<lambda>r. fst r \<noteq> v) (rows w)"
  "sent (query_delete v w) = sent w @ [DeleteRows v]"
  "logged (query_delete v w) = logged w"
  "started (query_delete v w) = started w"
  "scripts_sent (query_delete v w) = scripts_sent w"
  "tables_migrations (query_delete v w) = tables_migrations w"
  "index_version (query_delete v w) = index_version w"
  by (simp_all add: query_delete_def)

lemma executeMigration_frame:
  "rows (snd (executeMigration e p a w)) = rows w"
  "started (snd (executeMigration e p a w)) = started w"
  "tables_migrations (snd (executeMigration e p a w)) = tables_migrations w"
  "index_version (snd (executeMigration e p a w)) = index_version w"
  by (auto simp: executeMigration_def query_script_def Let_def split: option.splits)

lemma setCurrentVersion_frame:
  "started (snd (setCurrentVersion v t w)) = started w"
  "scripts_sent (snd (setCurrentVersion v t w)) = scripts_sent w"
  "tables_migrations (snd (setCurrentVersion v t w)) = tables_migrations w"
  "index_version (snd (setCurrentVersion v t w)) = index_version w"
  by (auto simp: setCurrentVersion_def query_create_def Let_def)

lemma setCurrentVersion_rows:
  "setCurrentVersion v t w = (Inr (), w') \<Longrightarrow> rows w' = rows w @ [(v, if t \<noteq> [] then Some t else None)]"
  "setCurrentVersion v t w = (Inl err, w') \<Longrightarrow> rows w' = rows w"
  by (auto simp: setCurrentVersion_def query_create_def Let_def split: if_splits)

lemma parseInt_not_NegInf [simp]: "parseInt k \<noteq> NegInf"
  by (simp add: parseInt_def Let_def split: option.splits)

lemma apply_range_Fin: "apply_range cur tgt k \<Longrightarrow> parseInt k = Fin (version_of k)"
  by (cases "parseInt k") (auto simp: apply_range_def js_gt_def version_of_def)

lemma revert_range_Fin: "revert_range cur tgt k \<Longrightarrow> parseInt k = Fin (version_of k)"
  by (cases "parseInt k") (auto simp: revert_range_def js_gt_def version_of_def)

lemma migrate_body_unfold:
  "map_of mf k = Some u \<Longrightarrow> do_file u = Some f \<Longrightarrow>
   migrate_body e d mf k v w =
     (case executeMigration e (if d = [] then f else d @ ''/'' @ f) ''do''
             (logger Info (Migrating_to k (title u)) w) of
        (Inl err, w2) \<Rightarrow> (Inl err, w2)
      | (Inr _, w2) \<Rightarrow> setCurrentVersion v (title u) w2)"
  by (simp add: migrate_body_def path_join_def Let_def)

lemma migrate_body_no_file:
  "map_of mf k = Some u \<Longrightarrow> do_file u = None \<Longrightarrow>
   migrate_body e d mf k v w = (Inl TypeError, logger Info (Migrating_to k (title u)) w)"
  by (simp add: migrate_body_def path_join_def Let_def)

lemma migrate_body_no_unit:
  "map_of mf k = None \<Longrightarrow> migrate_body e d mf k v w = (Inl TypeError, w)"
  by (simp add: migrate_body_def)

lemma migrate_body_Inr:
  assumes "migrate_body e d mf k v w = (Inr (), w')"
  shows "started w' = started w @ [k]"
    and "rows w' = rows w @ [(v, snd (row_of mf k))]"
    and "index_version w' = index_version w"
    and "tables_migrations w' = tables_migrations w"
proof -
  obtain u where u: "map_of mf k = Some u"
    using assms by (cases "map_of mf k") (auto simp: migrate_body_no_unit)
  obtain f where f: "do_file u = Some f"
    using assms u by (cases "do_file u") (auto simp: migrate_body_no_file)
  let ?w1 = "logger Info (Migrating_to k (title u)) w"
  let ?p = "if d = [] then f else d @ ''/'' @ f"
  obtain r2 w2 where ex: "executeMigration e ?p ''do'' ?w1 = (r2, w2)" by force
  with assms u f have r2: "r2 = Inr ()" and sc: "setCurrentVersion v (title u) w2 = (Inr (), w')"
    by (auto simp: migrate_body_unfold split: sum.splits)
  have fr: "rows w2 = rows w" "started w2 = started w @ [k]"
      "index_version w2 = index_version w" "tables_migrations w2 = tables_migrations w"
    using executeMigration_frame[of e ?p "''do''" ?w1] ex by simp_all
  show "started w' = started w @ [k]"
    using setCurrentVersion_frame(1)[of v "title u" w2] sc fr by simp
  show "rows w' = rows w @ [(v, snd (row_of mf k))]"
    using setCurrentVersion_rows(1)[OF sc] fr u by (simp add: row_of_def)
  show "index_version w' = index_version w"
    using setCurrentVersion_frame(4)[of v "title u" w2] sc fr by simp
  show "tables_migrations w' = tables_migrations w"
    using setCurrentVersion_frame(3)[of v "title u" w2] sc fr by simp
qed

lemma migrate_body_cases:
  obtains
    (no_unit) "map_of mf k = None" "migrate_body e d mf k v w = (Inl TypeError, w)"
  | (no_file) u where "map_of mf k = Some u" "do_file u = None"
      "migrate_body e d mf k v w = (Inl TypeError, logger Info (Migrating_to k (title u)) w)"
  | (exec_fail) u f err w2 where "map_of mf k = Some u" "do_file u = Some f"
      "executeMigration e (if d = [] then f else d @ ''/'' @ f) ''do''
         (logger Info (Migrating_to k (title u)) w) = (Inl err, w2)"
      "migrate_body e d mf k v w = (Inl err, w2)"
  | (exec_ok) u f w2 where "map_of mf k = Some u" "do_file u = Some f"
      "executeMigration e (if d = [] then f else d @ ''/'' @ f) ''do''
         (logger Info (Migrating_to k (title u)) w) = (Inr (), w2)"
      "migrate_body e d mf k v w = setCurrentVersion v (title u) w2"
proof (cases "map_of mf k")
  case None
  then show ?thesis using no_unit by (simp add: migrate_body_no_unit)
next
  case (Some u)
  show ?thesis
  proof (cases "do_file u")
    case None
    then show ?thesis using Some no_file by (simp add: migrate_body_no_file)
  next
    case f: (Some f)
    obtain r2 w2 where ex: "executeMigration e (if d = [] then f else d @ ''/'' @ f) ''do''
         (logger Info (Migrating_to k (title u)) w) = (r2, w2)" by force
    show ?thesis
    proof (cases r2)
      case (Inl err)
      then show ?thesis using exec_fail[OF Some f] ex by (simp add: migrate_body_unfold[OF Some f])
    next
      case (Inr x)
      then show ?thesis using exec_ok[OF Some f] ex by (simp add: migrate_body_unfold[OF Some f])
    qed
  qed
qed

lemma executeMigration_frame':
  "executeMigration e p a w = (r, w') \<Longrightarrow>
   rows w' = rows w \<and> started w' = started w \<and> tables_migrations w' = tables_migrations w
   \<and> index_version w' = index_version w"
  using executeMigration_frame[of e p a w] by simp


lemma migrate_body_frame:
  "index_version (snd (migrate_body e d mf k v w)) = index_version w"
  "tables_migrations (snd (migrate_body e d mf k v w)) = tables_migrations w"
  "started (snd (migrate_body e d mf k v w)) = started w @ (if map_of mf k = None then [] else [k])"
proof -
  have "index_version (snd (migrate_body e d mf k v w)) = index_version w
     \<and> tables_migrations (snd (migrate_body e d mf k v w)) = tables_migrations w
     \<and> started (snd (migrate_body e d mf k v w)) = started w @ (if map_of mf k = None then [] else [k])"
  proof (cases rule: migrate_body_cases[of mf k e d v w])
    case no_unit
    then show ?thesis by simp
  next
    case (no_file u)
    then show ?thesis by simp
  next
    case (exec_fail u f err w2)
    then show ?thesis using executeMigration_frame'[OF exec_fail(3)] by simp
  next
    case (exec_ok u f w2)
    then show ?thesis using executeMigration_frame'[OF exec_ok(3)]
        setCurrentVersion_frame[of v "title u" w2] by simp
  qed
  then show "index_version (snd (migrate_body e d mf k v w)) = index_version w"
    "tables_migrations (snd (migrate_body e d mf k v w)) = tables_migrations w"
    "started (snd (migrate_body e d mf k v w)) = started w @ (if map_of mf k = None then [] else [k])"
    by simp_all
qed

lemma migrate_body_Inl_rows:
  assumes "migrate_body e d mf k v w = (Inl err, w')"
  shows "rows w' = rows w"
proof (cases rule: migrate_body_cases[of mf k e d v w])
  case no_unit
  then show ?thesis using assms by simp
next
  case (no_file u)
  then show ?thesis using assms by auto
next
  case (exec_fail u f err w2)
  then show ?thesis using executeMigration_frame'[OF exec_fail(3)] assms by simp
next
  case (exec_ok u f w2)
  then show ?thesis using executeMigration_frame'[OF exec_ok(3)]
      setCurrentVersion_rows(2)[of v "title u" w2 err w'] assms by simp
qed

declare migrate_loop.simps(2) [simp del]

lemma migrate_loop_skip:
  "\<not> apply_range cur tgt k \<Longrightarrow>
   migrate_loop e d mf cur tgt (k # rest) w = migrate_loop e d mf cur tgt rest w"
  by (auto simp: apply_range_def migrate_loop.simps(2))

lemma migrate_loop_take:
  assumes "apply_range cur tgt k"
  shows "migrate_loop e d mf cur tgt (k # rest) w =
     (case migrate_body e d mf k (version_of k) w of
        (Inl err, w') \<Rightarrow> (Inl err, w')
      | (Inr _, w') \<Rightarrow> migrate_loop e d mf cur tgt rest w')"
proof -
  have p: "parseInt k = Fin (version_of k)" using apply_range_Fin[OF assms] .
  have c: "js_gt (parseInt k) (Fin cur) \<and> js_le (parseInt k) tgt"
    using assms by (simp add: apply_range_def)
  show ?thesis
    by (subst migrate_loop.simps(2)) (simp only: c simp_thms if_True, simp only: p jsnum.case)
qed

lemma migrate_loop_Inr:
  "migrate_loop e d mf cur tgt vs w = (Inr (), w') \<Longrightarrow>
   started w' = started w @ filter (apply_range cur tgt) vs \<and>
   rows w' = rows w @ map (row_of mf) (filter (apply_range cur tgt) vs)"
proof (induction vs arbitrary: w)
  case Nil
  then show ?case by simp
next
  case (Cons k rest)
  show ?case
  proof (cases "apply_range cur tgt k")
    case False
    with Cons show ?thesis by (simp add: migrate_loop_skip)
  next
    case True
    obtain r1 w1 where b: "migrate_body e d mf k (version_of k) w = (r1, w1)" by force
    with Cons.prems True have r1: "r1 = Inr ()" and l: "migrate_loop e d mf cur tgt rest w1 = (Inr (), w')"
      by (auto simp: migrate_loop_take split: sum.splits)
    from b r1 have b': "migrate_body e d mf k (version_of k) w = (Inr (), w1)" by simp
    have "row_of mf k = (version_of k, snd (row_of mf k))" by (simp add: row_of_def)
    with Cons.IH[OF l] migrate_body_Inr(1,2)[OF b'] True show ?thesis by simp
  qed
qed

lemma migrate_loop_prefix:
  "\<exists>ys. prefix ys (filter (apply_range cur tgt) vs) \<and>
        started (snd (migrate_loop e d mf cur tgt vs w)) = started w @ ys"
proof (induction vs arbitrary: w)
  case Nil
  then show ?case by simp
next
  case (Cons k rest)
  show ?case
  proof (cases "apply_range cur tgt k")
    case False
    with Cons show ?thesis by (simp add: migrate_loop_skip)
  next
    case True
    obtain r1 w1 where b: "migrate_body e d mf k (version_of k) w = (r1, w1)" by force
    have s1: "started w1 = started w @ (if map_of mf k = None then [] else [k])"
      using migrate_body_frame(3)[of e d mf k "version_of k" w] b by simp
    show ?thesis
    proof (cases r1)
      case (Inl err)
      with b True have "snd (migrate_loop e d mf cur tgt (k # rest) w) = w1"
        by (simp add: migrate_loop_take)
      then have "started (snd (migrate_loop e d mf cur tgt (k # rest) w))
                   = started w @ (if map_of mf k = None then [] else [k])"
        using s1 by simp
      moreover have "prefix (if map_of mf k = None then [] else [k]) (filter (apply_range cur tgt) (k # rest))"
        using True by simp
      ultimately show ?thesis by blast
    next
      case (Inr u)
      with b True have eq: "migrate_loop e d mf cur tgt (k # rest) w = migrate_loop e d mf cur tgt rest w1"
        by (simp add: migrate_loop_take)
      from b Inr have "migrate_body e d mf k (version_of k) w = (Inr (), w1)" by simp
      from migrate_body_Inr(1)[OF this] have s1': "started w1 = started w @ [k]" .
      from Cons.IH[of w1] obtain ys where ys: "prefix ys (filter (apply_range cur tgt) rest)"
        "started (snd (migrate_loop e d mf cur tgt rest w1)) = started w1 @ ys" by blast
      have "prefix (k # ys) (filter (apply_range cur tgt) (k # rest))" using ys True by simp
      moreover have "started (snd (migrate_loop e d mf cur tgt (k # rest) w)) = started w @ (k # ys)"
        using eq ys s1' by simp
      ultimately show ?thesis by blast
    qed
  qed
qed

subsection \<open>Sorting, keys and the top level of \<^verbatim>\<open>migrate\<close>\<close>

lemma mset_insort_cmp [simp]: "mset (insort_cmp c x xs) = add_mset x (mset xs)"
  by (induction xs) auto

lemma mset_Array_sort [simp]: "mset (Array_sort c xs) = mset xs"
  by (induction xs) (auto simp: Array_sort_def)

lemma set_Array_sort [simp]: "set (Array_sort c xs) = set xs"
  using mset_Array_sort[of c xs] by (metis set_mset_mset)

lemma mset_Object_keys [simp]: "mset (Object_keys mf) = mset (map fst mf)"
  by (simp add: Object_keys_def)

lemma set_Object_keys [simp]: "set (Object_keys mf) = fst ` set mf"
  using mset_Object_keys[of mf] by (metis set_mset_mset set_map)










lemma apply_range_bounds:
  "apply_range cur tgt k \<Longrightarrow> parseInt k = Fin (version_of k) \<and> cur < version_of k \<and> js_le (Fin (version_of k)) tgt"
  by (cases "parseInt k") (auto simp: apply_range_def js_gt_def version_of_def)


lemma connectToDatabase_frame:
  "rows (snd (connectToDatabase e w)) = rows w"
  "started (snd (connectToDatabase e w)) = started w"
  "scripts_sent (snd (connectToDatabase e w)) = scripts_sent w"
  by (auto simp: connectToDatabase_def Let_def query_info_def query_define_def started_def scripts_sent_def)

lemma connectToDatabase_result:
  "fst (connectToDatabase e w) = (if connect_ok e then Inr () else Inl Exit)"
  by (auto simp: connectToDatabase_def Let_def query_info_def)

lemma getMigrationFiles_Some:
  "readdir e d = Some files \<Longrightarrow> getMigrationFiles e d w = (Inr (reduce_files files), w)"
  by (simp add: getMigrationFiles_def)

lemma getCurrentVersion_frame:
  "rows (snd (getCurrentVersion e w)) = rows w"
  "started (snd (getCurrentVersion e w)) = started w"
  "scripts_sent (snd (getCurrentVersion e w)) = scripts_sent w"
  "index_version (snd (getCurrentVersion e w)) = index_version w"
  "tables_migrations (snd (getCurrentVersion e w)) = tables_migrations w"
  by (auto simp: getCurrentVersion_def query_select_def)

lemma getCurrentVersion_value:
  "fst (getCurrentVersion e w) =
     (if select_ok e then (case latest_row (rows w) of None \<Rightarrow> 0 | Some r \<Rightarrow> fst r) else 0)"
  by (auto simp: getCurrentVersion_def query_select_def)

lemma getCurrentVersion_cong:
  "rows w' = rows w \<Longrightarrow> fst (getCurrentVersion e w') = fst (getCurrentVersion e w)"
  by (simp add: getCurrentVersion_value)

lemma migrate_connected:
  assumes "connect_ok e" "readdir e d = Some files"
  shows "migrate e d tv w =
    (let w1 = snd (connectToDatabase e w);
         cur = fst (getCurrentVersion e w);
         w3 = snd (getCurrentVersion e w1);
         versions = Array_sort cmp_asc (Object_keys (reduce_files files));
         tgt = target_of tv (Math_max (map parseInt versions))
     in if js_lt tgt (Fin cur) then (Inr (), logger Warn (Use_rollback cur tgt) w3)
        else if js_eq tgt (Fin cur) then (Inr (), logger Info Up_to_date w3)
        else migrate_loop e d (reduce_files files) cur tgt versions w3)"
proof -
  obtain w1 where c: "connectToDatabase e w = (Inr (), w1)"
    using connectToDatabase_result[of e w] assms(1) by (cases "connectToDatabase e w") auto
  have r: "rows w1 = rows w" using connectToDatabase_frame(1)[of e w] c by simp
  obtain cur w3 where g: "getCurrentVersion e w1 = (cur, w3)" by force
  have "cur = fst (getCurrentVersion e w)" using getCurrentVersion_cong[OF r, of e] g by simp
  then show ?thesis using c g assms(2)
    by (simp add: migrate_def getMigrationFiles_Some Let_def)
qed

lemma migrate_not_connected:
  "\<not> connect_ok e \<Longrightarrow> migrate e d tv w = (Inl Exit, logger Error Failed_to_connect w)"
  by (simp add: migrate_def connectToDatabase_def)

lemma migrate_no_directory:
  "connect_ok e \<Longrightarrow> readdir e d = None \<Longrightarrow>
   migrate e d tv w = (Inl Exit, logger Error Failed_to_read_files (snd (connectToDatabase e w)))"
  by (auto simp: migrate_def connectToDatabase_def getMigrationFiles_def Let_def query_info_def)

lemma js_lt_no_apply: "js_lt tgt (Fin cur) \<Longrightarrow> \<not> apply_range cur tgt k"
  by (cases tgt; cases "parseInt k") (auto simp: apply_range_def js_gt_def)

lemma js_eq_no_apply: "js_eq tgt (Fin cur) \<Longrightarrow> \<not> apply_range cur tgt k"
  by (cases tgt; cases "parseInt k") (auto simp: apply_range_def js_gt_def)

lemma js_ge_no_revert: "js_ge tgt (Fin cur) \<Longrightarrow> \<not> revert_range cur tgt k"
  by (cases tgt; cases "parseInt k") (auto simp: revert_range_def js_gt_def js_ge_def)

subsection \<open>The loop of \<^verbatim>\<open>rollback\<close> and the runs as a whole\<close>

lemma rollback_body_unfold:
  "map_of mf k = Some u \<Longrightarrow> undo_file u = Some f \<Longrightarrow>
   rollback_body e d mf k v w =
     (case executeMigration e (if d = [] then f else d @ ''/'' @ f) ''undo''
             (logger Info (Rolling_back k (title u)) w) of
        (Inl err, w2) \<Rightarrow> (Inl err, w2)
      | (Inr _, w2) \<Rightarrow> (Inr (), query_delete v w2))"
  by (simp add: rollback_body_def path_join_def Let_def)

lemma rollback_body_no_file:
  "map_of mf k = Some u \<Longrightarrow> undo_file u = None \<Longrightarrow>
   rollback_body e d mf k v w = (Inl TypeError, logger Info (Rolling_back k (title u)) w)"
  by (simp add: rollback_body_def path_join_def Let_def)

lemma rollback_body_no_unit:
  "map_of mf k = None \<Longrightarrow> rollback_body e d mf k v w = (Inl TypeError, w)"
  by (simp add: rollback_body_def)

lemma rollback_body_cases:
  obtains
    (no_unit) "map_of mf k = None" "rollback_body e d mf k v w = (Inl TypeError, w)"
  | (no_file) u where "map_of mf k = Some u" "undo_file u = None"
      "rollback_body e d mf k v w = (Inl TypeError, logger Info (Rolling_back k (title u)) w)"
  | (exec_fail) u f err w2 where "map_of mf k = Some u" "undo_file u = Some f"
      "executeMigration e (if d = [] then f else d @ ''/'' @ f) ''undo''
         (logger Info (Rolling_back k (title u)) w) = (Inl err, w2)"
      "rollback_body e d mf k v w = (Inl err, w2)"
  | (exec_ok) u f w2 where "map_of mf k = Some u" "undo_file u = Some f"
      "executeMigration e (if d = [] then f else d @ ''/'' @ f) ''undo''
         (logger Info (Rolling_back k (title u)) w) = (Inr (), w2)"
      "rollback_body e d mf k v w = (Inr (), query_delete v w2)"
proof (cases "map_of mf k")
  case None
  then show ?thesis using no_unit by (simp add: rollback_body_no_unit)
next
  case (Some u)
  show ?thesis
  proof (cases "undo_file u")
    case None
    then show ?thesis using Some no_file by (simp add: rollback_body_no_file)
  next
    case f: (Some f)
    obtain r2 w2 where ex: "executeMigration e (if d = [] then f else d @ ''/'' @ f) ''undo''
         (logger Info (Rolling_back k (title u)) w) = (r2, w2)" by force
    show ?thesis
    proof (cases r2)
      case (Inl err)
      then show ?thesis using exec_fail[OF Some f] ex by (simp add: rollback_body_unfold[OF Some f])
    next
      case (Inr x)
      then show ?thesis using exec_ok[OF Some f] ex by (simp add: rollback_body_unfold[OF Some f])
    qed
  qed
qed

lemma rollback_body_Inr:
  assumes "rollback_body e d mf k v w = (Inr (), w')"
  shows "started w' = started w @ [k] \<and> rows w' = filter (\<lambda>r. fst r \<noteq> v) (rows w)
       \<and> index_version w' = index_version w \<and> tables_migrations w' = tables_migrations w"
proof (cases rule: rollback_body_cases[of mf k e d v w])
  case no_unit
  then show ?thesis using assms by simp
next
  case (no_file u)
  then show ?thesis using assms by simp
next
  case (exec_fail u f err w2)
  then show ?thesis using assms by simp
next
  case (exec_ok u f w2)
  then show ?thesis using executeMigration_frame'[OF exec_ok(3)] assms by auto
qed


lemma rollback_body_Inl_rows:
  assumes "rollback_body e d mf k v w = (Inl err, w')"
  shows "rows w' = rows w"
proof (cases rule: rollback_body_cases[of mf k e d v w])
  case no_unit
  then show ?thesis using assms by simp
next
  case (no_file u)
  then show ?thesis using assms by auto
next
  case (exec_fail u f err w2)
  then show ?thesis using executeMigration_frame'[OF exec_fail(3)] assms by simp
next
  case (exec_ok u f w2)
  then show ?thesis using assms by simp
qed

declare rollback_loop.simps(2) [simp del]

lemma rollback_loop_skip:
  "\<not> revert_range cur tgt k \<Longrightarrow>
   rollback_loop e d mf cur tgt (k # rest) w = rollback_loop e d mf cur tgt rest w"
  by (auto simp: revert_range_def rollback_loop.simps(2))

lemma rollback_loop_take:
  assumes "revert_range cur tgt k"
  shows "rollback_loop e d mf cur tgt (k # rest) w =
     (case rollback_body e d mf k (version_of k) w of
        (Inl err, w') \<Rightarrow> (Inl err, w')
      | (Inr _, w') \<Rightarrow> rollback_loop e d mf cur tgt rest w')"
proof -
  have p: "parseInt k = Fin (version_of k)" using revert_range_Fin[OF assms] .
  have c: "js_le (parseInt k) (Fin cur) \<and> js_gt (parseInt k) tgt"
    using assms by (simp add: revert_range_def)
  show ?thesis
    by (subst rollback_loop.simps(2)) (simp only: c simp_thms if_True, simp only: p jsnum.case)
qed

lemma rollback_loop_Inr:
  "rollback_loop e d mf cur tgt vs w = (Inr (), w') \<Longrightarrow>
   started w' = started w @ filter (revert_range cur tgt) vs \<and>
   rows w' = filter (\<lambda>r. fst r \<notin> version_of ` set (filter (revert_range cur tgt) vs)) (rows w)"
proof (induction vs arbitrary: w)
  case Nil
  then show ?case by simp
next
  case (Cons k rest)
  show ?case
  proof (cases "revert_range cur tgt k")
    case False
    with Cons show ?thesis by (simp add: rollback_loop_skip)
  next
    case True
    obtain r1 w1 where b: "rollback_body e d mf k (version_of k) w = (r1, w1)" by force
    with Cons.prems True have r1: "r1 = Inr ()" and l: "rollback_loop e d mf cur tgt rest w1 = (Inr (), w')"
      by (auto simp: rollback_loop_take split: sum.splits)
    from b r1 have b': "rollback_body e d mf k (version_of k) w = (Inr (), w1)" by simp
    from rollback_body_Inr[OF b'] have s: "started w1 = started w @ [k]"
      and r: "rows w1 = filter (\<lambda>r. fst r \<noteq> version_of k) (rows w)" by simp_all
    have "filter (\<lambda>r. fst r \<notin> version_of ` set (filter (revert_range cur tgt) rest))
            (filter (\<lambda>r. fst r \<noteq> version_of k) (rows w))
        = filter (\<lambda>r. fst r \<notin> version_of ` set (filter (revert_range cur tgt) (k # rest))) (rows w)"
      using True by (auto intro: filter_cong)
    with Cons.IH[OF l] s r True show ?thesis by simp
  qed
qed


lemma rollback_connected:
  assumes "connect_ok e" "readdir e d = Some files"
  shows "rollback e d tv w =
    (let w1 = snd (connectToDatabase e w);
         cur = fst (getCurrentVersion e w);
         w3 = snd (getCurrentVersion e w1);
         versions = Array_sort cmp_desc (Object_keys (reduce_files files));
         tgt = target_of tv (Fin (cur - 1))
     in if js_ge tgt (Fin cur) then (Inr (), logger Warn (Use_migrate tgt cur) w3)
        else rollback_loop e d (reduce_files files) cur tgt versions w3)"
proof -
  obtain w1 where c: "connectToDatabase e w = (Inr (), w1)"
    using connectToDatabase_result[of e w] assms(1) by (cases "connectToDatabase e w") auto
  have r: "rows w1 = rows w" using connectToDatabase_frame(1)[of e w] c by simp
  obtain cur w3 where g: "getCurrentVersion e w1 = (cur, w3)" by force
  have "cur = fst (getCurrentVersion e w)" using getCurrentVersion_cong[OF r, of e] g by simp
  then show ?thesis using c g assms(2)
    by (simp add: rollback_def getMigrationFiles_Some Let_def)
qed

lemma rollback_not_connected:
  "\<not> connect_ok e \<Longrightarrow> rollback e d tv w = (Inl Exit, logger Error Failed_to_connect w)"
  by (simp add: rollback_def connectToDatabase_def)

lemma before_loop_frame:
  "rows (snd (getCurrentVersion e (snd (connectToDatabase e w)))) = rows w"
  "started (snd (getCurrentVersion e (snd (connectToDatabase e w)))) = started w"
  "scripts_sent (snd (getCurrentVersion e (snd (connectToDatabase e w)))) = scripts_sent w"
  by (simp_all add: getCurrentVersion_frame connectToDatabase_frame)

lemma migrate_cases:
  assumes "readdir e d = Some files"
  obtains
    (exit) "\<not> connect_ok e" "migrate e d tv w = (Inl Exit, logger Error Failed_to_connect w)"
  | (low) "connect_ok e"
      "js_lt (apply_target tv (reduce_files files)) (Fin (fst (getCurrentVersion e w)))"
      "migrate e d tv w =
         (Inr (), logger Warn (Use_rollback (fst (getCurrentVersion e w)) (apply_target tv (reduce_files files)))
                    (snd (getCurrentVersion e (snd (connectToDatabase e w)))))"
  | (same) "connect_ok e"
      "js_eq (apply_target tv (reduce_files files)) (Fin (fst (getCurrentVersion e w)))"
      "migrate e d tv w =
         (Inr (), logger Info Up_to_date (snd (getCurrentVersion e (snd (connectToDatabase e w)))))"
  | (run) "connect_ok e"
      "\<not> js_lt (apply_target tv (reduce_files files)) (Fin (fst (getCurrentVersion e w)))"
      "\<not> js_eq (apply_target tv (reduce_files files)) (Fin (fst (getCurrentVersion e w)))"
      "migrate e d tv w =
         migrate_loop e d (reduce_files files) (fst (getCurrentVersion e w))
           (apply_target tv (reduce_files files))
           (Array_sort cmp_asc (Object_keys (reduce_files files)))
           (snd (getCurrentVersion e (snd (connectToDatabase e w))))"
proof (cases "connect_ok e")
  case False
  then show ?thesis using exit by (simp add: migrate_not_connected)
next
  case True
  let ?cur = "fst (getCurrentVersion e w)"
  let ?tgt = "apply_target tv (reduce_files files)"
  consider (a) "js_lt ?tgt (Fin ?cur)" | (b) "\<not> js_lt ?tgt (Fin ?cur)" "js_eq ?tgt (Fin ?cur)"
    | (c) "\<not> js_lt ?tgt (Fin ?cur)" "\<not> js_eq ?tgt (Fin ?cur)" by blast
  then show ?thesis
  proof cases
    case a
    then show ?thesis using low[OF True]
      by (simp add: migrate_connected[OF True assms] Let_def apply_target_def)
  next
    case b
    then show ?thesis using same[OF True]
      by (simp add: migrate_connected[OF True assms] Let_def apply_target_def)
  next
    case c
    then show ?thesis using run[OF True]
      by (simp add: migrate_connected[OF True assms] Let_def apply_target_def)
  qed
qed

lemma rollback_cases:
  assumes "readdir e d = Some files"
  obtains
    (exit) "\<not> connect_ok e" "rollback e d tv w = (Inl Exit, logger Error Failed_to_connect w)"
  | (high) "connect_ok e"
      "js_ge (revert_target tv (fst (getCurrentVersion e w))) (Fin (fst (getCurrentVersion e w)))"
      "rollback e d tv w =
         (Inr (), logger Warn (Use_migrate (revert_target tv (fst (getCurrentVersion e w))) (fst (getCurrentVersion e w)))
                    (snd (getCurrentVersion e (snd (connectToDatabase e w)))))"
  | (run) "connect_ok e"
      "\<not> js_ge (revert_target tv (fst (getCurrentVersion e w))) (Fin (fst (getCurrentVersion e w)))"
      "rollback e d tv w =
         rollback_loop e d (reduce_files files) (fst (getCurrentVersion e w))
           (revert_target tv (fst (getCurrentVersion e w)))
           (Array_sort cmp_desc (Object_keys (reduce_files files)))
           (snd (getCurrentVersion e (snd (connectToDatabase e w))))"
proof (cases "connect_ok e")
  case False
  then show ?thesis using exit by (simp add: rollback_not_connected)
next
  case True
  let ?cur = "fst (getCurrentVersion e w)"
  let ?tgt = "revert_target tv ?cur"
  show ?thesis
  proof (cases "js_ge ?tgt (Fin ?cur)")
    case a: True
    then show ?thesis using high[OF True]
      by (simp add: rollback_connected[OF True assms] Let_def revert_target_def)
  next
    case c: False
    then show ?thesis using run[OF True]
      by (simp add: rollback_connected[OF True assms] Let_def revert_target_def)
  qed
qed

lemma migrate_started_prefix:
  assumes "readdir e d = Some files"
  shows "\<exists>ys. prefix ys (apply_plan (reduce_files files) (fst (getCurrentVersion e w)) tv)
        \<and> started (snd (migrate e d tv w)) = started w @ ys"
  using assms
proof (cases rule: migrate_cases[where tv=tv and w=w])
  case exit
  then have "started (snd (migrate e d tv w)) = started w @ []" by simp
  then show ?thesis by (metis prefix_bot.bot_least)
next
  case low
  then have "started (snd (migrate e d tv w)) = started w @ []" by (simp add: before_loop_frame)
  then show ?thesis by (metis prefix_bot.bot_least)
next
  case same
  then have "started (snd (migrate e d tv w)) = started w @ []" by (simp add: before_loop_frame)
  then show ?thesis by (metis prefix_bot.bot_least)
next
  case run
  show ?thesis unfolding run(4) apply_plan_def
    using migrate_loop_prefix[of "fst (getCurrentVersion e w)" "apply_target tv (reduce_files files)"
        "Array_sort cmp_asc (Object_keys (reduce_files files))" e d "reduce_files files"
        "snd (getCurrentVersion e (snd (connectToDatabase e w)))"]
    by (simp add: before_loop_frame)
qed

lemma migrate_success:
  assumes "readdir e d = Some files" "fst (migrate e d tv w) = Inr ()"
  shows "started (snd (migrate e d tv w))
           = started w @ apply_plan (reduce_files files) (fst (getCurrentVersion e w)) tv
       \<and> rows (snd (migrate e d tv w))
           = rows w @ map (row_of (reduce_files files))
                        (apply_plan (reduce_files files) (fst (getCurrentVersion e w)) tv)"
  using assms(1)
proof (cases rule: migrate_cases[where tv=tv and w=w])
  case exit
  then show ?thesis using assms(2) by simp
next
  case low
  then have "apply_plan (reduce_files files) (fst (getCurrentVersion e w)) tv = []"
    by (simp add: apply_plan_def js_lt_no_apply)
  then show ?thesis using low by (simp add: before_loop_frame)
next
  case same
  then have "apply_plan (reduce_files files) (fst (getCurrentVersion e w)) tv = []"
    by (simp add: apply_plan_def js_eq_no_apply)
  then show ?thesis using same by (simp add: before_loop_frame)
next
  case run
  have "migrate_loop e d (reduce_files files) (fst (getCurrentVersion e w))
           (apply_target tv (reduce_files files))
           (Array_sort cmp_asc (Object_keys (reduce_files files)))
           (snd (getCurrentVersion e (snd (connectToDatabase e w)))) = (Inr (), snd (migrate e d tv w))"
    using assms(2) run(4) by (metis prod.collapse)
  from migrate_loop_Inr[OF this] show ?thesis by (simp add: before_loop_frame apply_plan_def)
qed


lemma rollback_success:
  assumes "readdir e d = Some files" "fst (rollback e d tv w) = Inr ()"
  shows "started (snd (rollback e d tv w))
           = started w @ revert_plan (reduce_files files) (fst (getCurrentVersion e w)) tv
       \<and> rows (snd (rollback e d tv w))
           = filter (\<lambda>r. fst r \<notin> version_of `
                       set (revert_plan (reduce_files files) (fst (getCurrentVersion e w)) tv))
               (rows w)"
  using assms(1)
proof (cases rule: rollback_cases[where tv=tv and w=w])
  case exit
  then show ?thesis using assms(2) by simp
next
  case high
  then have "revert_plan (reduce_files files) (fst (getCurrentVersion e w)) tv = []"
    by (simp add: revert_plan_def js_ge_no_revert)
  then show ?thesis using high by (simp add: before_loop_frame)
next
  case run
  have "rollback_loop e d (reduce_files files) (fst (getCurrentVersion e w))
           (revert_target tv (fst (getCurrentVersion e w)))
           (Array_sort cmp_desc (Object_keys (reduce_files files)))
           (snd (getCurrentVersion e (snd (connectToDatabase e w)))) = (Inr (), snd (rollback e d tv w))"
    using assms(2) run(3) by (metis prod.collapse)
  from rollback_loop_Inr[OF this] show ?thesis by (simp add: before_loop_frame revert_plan_def)
qed

lemma apply_plan_mset:
  "mset (apply_plan mf cur tv) = mset (filter (apply_range cur (apply_target tv mf)) (map fst mf))"
  by (simp add: apply_plan_def)

lemma revert_plan_mset:
  "mset (revert_plan mf cur tv) = mset (filter (revert_range cur (revert_target tv cur)) (map fst mf))"
  by (simp add: revert_plan_def)

lemma apply_plan_bounds:
  "k \<in> set (apply_plan mf cur tv) \<Longrightarrow>
   parseInt k = Fin (version_of k) \<and> cur < version_of k \<and> js_le (Fin (version_of k)) (apply_target tv mf)"
  using apply_range_bounds[of cur "apply_target tv mf" k] by (simp add: apply_plan_def)




subsection \<open>A failing script, a missing script\<close>








lemma plan_nonempty_runs_apply:
  assumes "apply_plan mf cur tv = pre @ k # post"
  shows "\<not> js_lt (apply_target tv mf) (Fin cur)" "\<not> js_eq (apply_target tv mf) (Fin cur)"
proof -
  have "k \<in> set (apply_plan mf cur tv)" using assms by simp
  then have "apply_range cur (apply_target tv mf) k" by (simp add: apply_plan_def)
  then show "\<not> js_lt (apply_target tv mf) (Fin cur)" "\<not> js_eq (apply_target tv mf) (Fin cur)"
    using js_lt_no_apply js_eq_no_apply by blast+
qed




subsection \<open>The direction guards, and a ledger that cannot be read\<close>

lemma apply_below_current_warns:
  assumes "connect_ok e" "readdir e d = Some files"
      and "js_lt (apply_target tv (reduce_files files)) (Fin (fst (getCurrentVersion e w)))"
  shows "fst (migrate e d tv w) = Inr ()
       \<and> last (logged (snd (migrate e d tv w)))
           = (Warn, Use_rollback (fst (getCurrentVersion e w)) (apply_target tv (reduce_files files)))
       \<and> apply_plan (reduce_files files) (fst (getCurrentVersion e w)) tv = []
       \<and> started (snd (migrate e d tv w)) = started w
       \<and> scripts_sent (snd (migrate e d tv w)) = scripts_sent w
       \<and> rows (snd (migrate e d tv w)) = rows w"
  using assms(2)
proof (cases rule: migrate_cases[where tv=tv and w=w])
  case exit
  then show ?thesis using assms(1) by simp
next
  case low
  have "apply_plan (reduce_files files) (fst (getCurrentVersion e w)) tv = []"
    using assms(3) by (simp add: apply_plan_def js_lt_no_apply)
  then show ?thesis using low(3) by (simp add: before_loop_frame)
next
  case same
  then show ?thesis using assms(3)
    by (cases "apply_target tv (reduce_files files)") auto
next
  case run
  then show ?thesis using assms(3) by simp
qed

lemma revert_not_below_current_warns:
  assumes "connect_ok e" "readdir e d = Some files"
      and "js_ge (revert_target tv (fst (getCurrentVersion e w))) (Fin (fst (getCurrentVersion e w)))"
  shows "fst (rollback e d tv w) = Inr ()
       \<and> last (logged (snd (rollback e d tv w)))
           = (Warn, Use_migrate (revert_target tv (fst (getCurrentVersion e w))) (fst (getCurrentVersion e w)))
       \<and> revert_plan (reduce_files files) (fst (getCurrentVersion e w)) tv = []
       \<and> started (snd (rollback e d tv w)) = started w
       \<and> scripts_sent (snd (rollback e d tv w)) = scripts_sent w
       \<and> rows (snd (rollback e d tv w)) = rows w"
  using assms(2)
proof (cases rule: rollback_cases[where tv=tv and w=w])
  case exit
  then show ?thesis using assms(1) by simp
next
  case high
  have "revert_plan (reduce_files files) (fst (getCurrentVersion e w)) tv = []"
    using assms(3) by (simp add: revert_plan_def js_ge_no_revert)
  then show ?thesis using high(3) by (simp add: before_loop_frame)
next
  case run
  then show ?thesis using assms(3) by simp
qed

lemma migrate_loop_starts_first:
  assumes "filter (apply_range cur tgt) vs = k # post" "map_of mf k \<noteq> None"
  shows "\<exists>ys. started (snd (migrate_loop e d mf cur tgt vs w)) = started w @ k # ys"
  using assms(1)
proof (induction vs arbitrary: w)
  case Nil
  then show ?case by simp
next
  case (Cons x rest)
  show ?case
  proof (cases "apply_range cur tgt x")
    case False
    with Cons show ?thesis by (simp add: migrate_loop_skip)
  next
    case True
    with Cons.prems have xk: "x = k" by simp
    obtain r1 w1 where b: "migrate_body e d mf k (version_of k) w = (r1, w1)" by force
    have s1: "started w1 = started w @ [k]"
      using migrate_body_frame(3)[of e d mf k "version_of k" w] b assms(2) by simp
    show ?thesis
    proof (cases r1)
      case (Inl err)
      with b True xk have "snd (migrate_loop e d mf cur tgt (x # rest) w) = w1"
        by (simp add: migrate_loop_take)
      then show ?thesis using s1 by simp
    next
      case (Inr y)
      with b True xk have eq: "migrate_loop e d mf cur tgt (x # rest) w = migrate_loop e d mf cur tgt rest w1"
        by (simp add: migrate_loop_take)
      from migrate_loop_prefix[of cur tgt rest e d mf w1] obtain ys where
        "started (snd (migrate_loop e d mf cur tgt rest w1)) = started w1 @ ys" by blast
      then show ?thesis using eq s1 by simp
    qed
  qed
qed

lemma getCurrentVersion_unreadable:
  "\<not> select_ok e \<Longrightarrow>
   getCurrentVersion e w = (0, logger Error Failed_to_get_version (send SelectLatest w))"
  by (simp add: getCurrentVersion_def query_select_def)

lemma migrate_starts_first:
  assumes "connect_ok e" "readdir e d = Some files"
      and "apply_plan (reduce_files files) (fst (getCurrentVersion e w)) tv = k # post"
  shows "\<exists>ys. started (snd (migrate e d tv w)) = started w @ k # ys"
  using assms(2)
proof (cases rule: migrate_cases[where tv=tv and w=w])
  case exit
  then show ?thesis using assms(1) by simp
next
  case low
  then show ?thesis using plan_nonempty_runs_apply[of _ _ _ "[]", simplified, OF assms(3)] by simp
next
  case same
  then show ?thesis using plan_nonempty_runs_apply[of _ _ _ "[]", simplified, OF assms(3)] by simp
next
  case run
  have f: "filter (apply_range (fst (getCurrentVersion e w)) (apply_target tv (reduce_files files)))
             (Array_sort cmp_asc (Object_keys (reduce_files files))) = k # post"
    using assms(3) by (simp add: apply_plan_def)
  have "k \<in> set (apply_plan (reduce_files files) (fst (getCurrentVersion e w)) tv)"
    using assms(3) by simp
  then have "k \<in> fst ` set (reduce_files files)" by (simp add: apply_plan_def)
  then have m: "map_of (reduce_files files) k \<noteq> None" by (simp add: map_of_eq_None_iff)
  show ?thesis unfolding run(4)
    using migrate_loop_starts_first[OF f m, of e d "snd (getCurrentVersion e (snd (connectToDatabase e w)))"]
    by (simp add: before_loop_frame)
qed

subsection \<open>The invariant of the ledger\<close>

lemma setCurrentVersion_guarded:
  "guarded w \<Longrightarrow> guarded (snd (setCurrentVersion v t w))"
  by (auto simp: guarded_def setCurrentVersion_def query_create_def Let_def)

lemma executeMigration_guarded:
  "guarded w \<Longrightarrow> guarded (snd (executeMigration e p a w))"
  by (simp add: guarded_def executeMigration_frame)

lemma logger_guarded [simp]: "guarded (logger l m w) = guarded w"
  by (simp add: guarded_def)

lemma query_delete_guarded: "guarded w \<Longrightarrow> guarded (query_delete v w)"
  by (simp add: guarded_def distinct_map_filter)

lemma migrate_body_guarded:
  assumes "guarded w"
  shows "guarded (snd (migrate_body e d mf k v w))"
proof (cases rule: migrate_body_cases[of mf k e d v w])
  case no_unit
  then show ?thesis using assms by simp
next
  case (no_file u)
  then show ?thesis using assms by simp
next
  case (exec_fail u f err w2)
  then show ?thesis
    using executeMigration_guarded[of "logger Info (Migrating_to k (title u)) w" e
        "if d = [] then f else d @ ''/'' @ f" "''do''"] assms by simp
next
  case (exec_ok u f w2)
  then show ?thesis
    using executeMigration_guarded[of "logger Info (Migrating_to k (title u)) w" e
        "if d = [] then f else d @ ''/'' @ f" "''do''"] assms
      setCurrentVersion_guarded[of w2 v "title u"] by simp
qed

lemma rollback_body_guarded:
  assumes "guarded w"
  shows "guarded (snd (rollback_body e d mf k v w))"
proof (cases rule: rollback_body_cases[of mf k e d v w])
  case no_unit
  then show ?thesis using assms by simp
next
  case (no_file u)
  then show ?thesis using assms by simp
next
  case (exec_fail u f err w2)
  then show ?thesis
    using executeMigration_guarded[of "logger Info (Rolling_back k (title u)) w" e
        "if d = [] then f else d @ ''/'' @ f" "''undo''"] assms by simp
next
  case (exec_ok u f w2)
  then show ?thesis
    using executeMigration_guarded[of "logger Info (Rolling_back k (title u)) w" e
        "if d = [] then f else d @ ''/'' @ f" "''undo''"] assms
      query_delete_guarded[of w2 v] by simp
qed

lemma migrate_loop_guarded:
  "guarded w \<Longrightarrow> guarded (snd (migrate_loop e d mf cur tgt vs w))"
proof (induction vs arbitrary: w)
  case Nil
  then show ?case by simp
next
  case (Cons x rest)
  show ?case
  proof (cases "apply_range cur tgt x")
    case False
    with Cons show ?thesis by (simp add: migrate_loop_skip)
  next
    case True
    obtain r1 w1 where b: "migrate_body e d mf x (version_of x) w = (r1, w1)" by force
    have g1: "guarded w1" using migrate_body_guarded[OF Cons.prems, of e d mf x "version_of x"] b by simp
    show ?thesis
    proof (cases r1)
      case (Inl err)
      then show ?thesis using b True g1 by (simp add: migrate_loop_take)
    next
      case (Inr y)
      then show ?thesis using b True Cons.IH[OF g1] by (simp add: migrate_loop_take)
    qed
  qed
qed

lemma rollback_loop_guarded:
  "guarded w \<Longrightarrow> guarded (snd (rollback_loop e d mf cur tgt vs w))"
proof (induction vs arbitrary: w)
  case Nil
  then show ?case by simp
next
  case (Cons x rest)
  show ?case
  proof (cases "revert_range cur tgt x")
    case False
    with Cons show ?thesis by (simp add: rollback_loop_skip)
  next
    case True
    obtain r1 w1 where b: "rollback_body e d mf x (version_of x) w = (r1, w1)" by force
    have g1: "guarded w1" using rollback_body_guarded[OF Cons.prems, of e d mf x "version_of x"] b by simp
    show ?thesis
    proof (cases r1)
      case (Inl err)
      then show ?thesis using b True g1 by (simp add: rollback_loop_take)
    next
      case (Inr y)
      then show ?thesis using b True Cons.IH[OF g1] by (simp add: rollback_loop_take)
    qed
  qed
qed

lemma connectToDatabase_guarded:
  "ledger_inv w \<Longrightarrow> connect_ok e \<Longrightarrow> guarded (snd (connectToDatabase e w))"
  by (auto simp: ledger_inv_def guarded_def connectToDatabase_def query_info_def query_define_def
        send_def logger_def Let_def)

lemma getCurrentVersion_guarded:
  "guarded w \<Longrightarrow> guarded (snd (getCurrentVersion e w))"
  by (simp add: guarded_def getCurrentVersion_frame)

lemma guarded_inv: "guarded w \<Longrightarrow> ledger_inv w"
  by (simp add: guarded_def ledger_inv_def)

lemma logger_inv [simp]: "ledger_inv (logger l m w) = ledger_inv w"
  by (simp add: ledger_inv_def)

lemma migrate_inv:
  assumes "ledger_inv w"
  shows "ledger_inv (snd (migrate e d tv w))"
proof (cases "connect_ok e")
  case False
  then show ?thesis using assms by (simp add: migrate_not_connected)
next
  case True
  have g: "guarded (snd (getCurrentVersion e (snd (connectToDatabase e w))))"
    using connectToDatabase_guarded[OF assms True] getCurrentVersion_guarded by blast
  show ?thesis
  proof (cases "readdir e d")
    case None
    have "guarded (snd (connectToDatabase e w))" by (rule connectToDatabase_guarded[OF assms True])
    then show ?thesis using migrate_no_directory[OF True None] by (simp add: guarded_inv)
  next
    case (Some files)
    then show ?thesis
    proof (cases rule: migrate_cases[where tv=tv and w=w])
      case exit
      then show ?thesis using True by simp
    next
      case low
      then show ?thesis using g by (simp add: guarded_inv)
    next
      case same
      then show ?thesis using g by (simp add: guarded_inv)
    next
      case run
      show ?thesis unfolding run(4) by (rule guarded_inv[OF migrate_loop_guarded[OF g]])
    qed
  qed
qed

lemma rollback_no_directory:
  "connect_ok e \<Longrightarrow> readdir e d = None \<Longrightarrow>
   rollback e d tv w = (Inl Exit, logger Error Failed_to_read_files (snd (connectToDatabase e w)))"
  by (auto simp: rollback_def connectToDatabase_def getMigrationFiles_def Let_def query_info_def)

lemma rollback_inv:
  assumes "ledger_inv w"
  shows "ledger_inv (snd (rollback e d tv w))"
proof (cases "connect_ok e")
  case False
  then show ?thesis using assms by (simp add: rollback_not_connected)
next
  case True
  have g: "guarded (snd (getCurrentVersion e (snd (connectToDatabase e w))))"
    using connectToDatabase_guarded[OF assms True] getCurrentVersion_guarded by blast
  show ?thesis
  proof (cases "readdir e d")
    case None
    have "guarded (snd (connectToDatabase e w))" by (rule connectToDatabase_guarded[OF assms True])
    then show ?thesis using rollback_no_directory[OF True None] by (simp add: guarded_inv)
  next
    case (Some files)
    then show ?thesis
    proof (cases rule: rollback_cases[where tv=tv and w=w])
      case exit
      then show ?thesis using True by simp
    next
      case high
      then show ?thesis using g by (simp add: guarded_inv)
    next
      case run
      show ?thesis unfolding run(3) by (rule guarded_inv[OF rollback_loop_guarded[OF g]])
    qed
  qed
qed

lemma getCurrentVersionInfo_frame:
  "rows (snd (getCurrentVersionInfo e w)) = rows w"
  "index_version (snd (getCurrentVersionInfo e w)) = index_version w"
  "tables_migrations (snd (getCurrentVersionInfo e w)) = tables_migrations w"
  by (auto simp: getCurrentVersionInfo_def query_select_def)

lemma getInfo_inv:
  assumes "ledger_inv w"
  shows "ledger_inv (snd (getInfo e d w))"
proof (cases "connect_ok e")
  case False
  then show ?thesis using assms by (simp add: getInfo_def connectToDatabase_def)
next
  case True
  obtain w1 where c: "connectToDatabase e w = (Inr (), w1)"
    using connectToDatabase_result[of e w] True by (cases "connectToDatabase e w") auto
  have g1: "guarded w1" using connectToDatabase_guarded[OF assms True] c by simp
  show ?thesis
  proof (cases "readdir e d")
    case None
    then show ?thesis using c g1 by (simp add: getInfo_def getMigrationFiles_def guarded_inv)
  next
    case (Some files)
    obtain i w3 where g: "getCurrentVersionInfo e w1 = (i, w3)" by (metis surj_pair)
    have "guarded w3" using g1 getCurrentVersionInfo_frame[of e w1] g by (simp add: guarded_def)
    then show ?thesis using c g Some
      by (simp add: getInfo_def getMigrationFiles_Some Let_def guarded_inv)
  qed
qed

lemma reachable_inv: "reachable w \<Longrightarrow> ledger_inv w"
proof (induction rule: reachable.induct)
  case reach_start
  then show ?case by (simp add: ledger_inv_def empty_world_def)
next
  case (reach_migrate w e d tv)
  then show ?case by (simp add: migrate_inv)
next
  case (reach_rollback w e d tv)
  then show ?case by (simp add: rollback_inv)
next
  case (reach_info w e d)
  then show ?case by (simp add: getInfo_inv)
qed

lemma setCurrentVersion_duplicate:
  assumes "index_version w" "v \<in> fst ` set (rows w)"
  shows "setCurrentVersion v t w
           = (Inl (DbError (CreateRow v (if t \<noteq> [] then Some t else None))),
              logger Error Failed_to_set_version
                (send (CreateRow v (if t \<noteq> [] then Some t else None)) w))"
  using assms by (simp add: setCurrentVersion_def query_create_def Let_def)

subsection \<open>The current version after a run; plans of one key\<close>

lemma latest_row_ge:
  "r \<in> set rs \<Longrightarrow> \<exists>r'. latest_row rs = Some r' \<and> fst r \<le> fst r'"
proof (induction rs)
  case Nil
  then show ?case by simp
next
  case (Cons a rs)
  show ?case
  proof (cases "latest_row rs")
    case None
    then have "rs = []" by (cases rs) (auto split: option.splits if_splits)
    with Cons.prems None show ?thesis by simp
  next
    case (Some b)
    show ?thesis
    proof (cases "r = a")
      case True
      then show ?thesis using Some by (cases a; cases b) auto
    next
      case False
      with Cons obtain r' where "latest_row rs = Some r'" "fst r \<le> fst r'" by auto
      then show ?thesis using Some by (cases a; cases b) auto
    qed
  qed
qed

lemma latest_row_mem: "latest_row rs = Some r \<Longrightarrow> r \<in> set rs"
  by (induction rs arbitrary: r) (auto split: option.splits if_splits)

lemma latest_row_None: "latest_row rs = None \<Longrightarrow> rs = []"
  by (cases rs) (auto split: option.splits if_splits)

lemma current_ge:
  assumes "select_ok e" "r \<in> set (rows w)"
  shows "fst r \<le> fst (getCurrentVersion e w)"
  using latest_row_ge[OF assms(2)] assms(1) by (auto simp: getCurrentVersion_value)

lemma current_cases:
  assumes "select_ok e"
  shows "(rows w = [] \<and> fst (getCurrentVersion e w) = 0)
       \<or> (\<exists>r\<in>set (rows w). fst (getCurrentVersion e w) = fst r)"
proof (cases "latest_row (rows w)")
  case None
  then show ?thesis using assms latest_row_None by (simp add: getCurrentVersion_value)
next
  case (Some r)
  then show ?thesis using assms latest_row_mem[OF Some] by (auto simp: getCurrentVersion_value)
qed

lemma migrate_loop_nothing:
  "filter (apply_range cur tgt) vs = [] \<Longrightarrow> migrate_loop e d mf cur tgt vs w = (Inr (), w)"
proof (induction vs)
  case Nil
  then show ?case by simp
next
  case (Cons x rest)
  then have "\<not> apply_range cur tgt x" "filter (apply_range cur tgt) rest = []"
    by (auto split: if_splits)
  with Cons.IH show ?case by (simp add: migrate_loop_skip)
qed

lemma rollback_loop_nothing:
  "filter (revert_range cur tgt) vs = [] \<Longrightarrow> rollback_loop e d mf cur tgt vs w = (Inr (), w)"
proof (induction vs)
  case Nil
  then show ?case by simp
next
  case (Cons x rest)
  then have "\<not> revert_range cur tgt x" "filter (revert_range cur tgt) rest = []"
    by (auto split: if_splits)
  with Cons.IH show ?case by (simp add: rollback_loop_skip)
qed

lemma migrate_empty_plan:
  assumes "connect_ok e" "readdir e d = Some files"
      and "apply_plan (reduce_files files) (fst (getCurrentVersion e w)) tv = []"
  shows "fst (migrate e d tv w) = Inr ()
       \<and> started (snd (migrate e d tv w)) = started w
       \<and> scripts_sent (snd (migrate e d tv w)) = scripts_sent w
       \<and> rows (snd (migrate e d tv w)) = rows w"
  using assms(2)
proof (cases rule: migrate_cases[where tv=tv and w=w])
  case exit
  then show ?thesis using assms(1) by simp
next
  case low
  then show ?thesis by (simp add: before_loop_frame)
next
  case same
  then show ?thesis by (simp add: before_loop_frame)
next
  case run
  have "filter (apply_range (fst (getCurrentVersion e w)) (apply_target tv (reduce_files files)))
          (Array_sort cmp_asc (Object_keys (reduce_files files))) = []"
    using assms(3) by (simp add: apply_plan_def)
  from migrate_loop_nothing[OF this] show ?thesis unfolding run(4)
    by (simp add: before_loop_frame)
qed

lemma row_of_fst [simp]: "fst (row_of mf k) = version_of k"
  by (simp add: row_of_def)

lemma plan_after_success_empty:
  assumes "select_ok e" "readdir e d = Some files" "fst (migrate e d tv w) = Inr ()"
  shows "apply_plan (reduce_files files) (fst (getCurrentVersion e (snd (migrate e d tv w)))) tv = []"
proof -
  let ?mf = "reduce_files files"
  let ?cur = "fst (getCurrentVersion e w)"
  let ?w1 = "snd (migrate e d tv w)"
  let ?cur1 = "fst (getCurrentVersion e ?w1)"
  let ?tgt = "apply_target tv ?mf"
  let ?vs = "Array_sort cmp_asc (Object_keys ?mf)"
  have rows1: "rows ?w1 = rows w @ map (row_of ?mf) (apply_plan ?mf ?cur tv)"
    using migrate_success[OF assms(2,3)] by simp
  have in_plan: "version_of k \<le> ?cur1" if "k \<in> set (apply_plan ?mf ?cur tv)" for k
  proof -
    have "row_of ?mf k \<in> set (rows ?w1)" using that rows1 by simp
    from current_ge[OF assms(1) this] show ?thesis by simp
  qed
  have mono: "?cur \<le> ?cur1"
  proof (cases "apply_plan ?mf ?cur tv")
    case Nil
    then have "rows ?w1 = rows w" using rows1 by simp
    then show ?thesis using getCurrentVersion_cong[of ?w1 w e] by simp
  next
    case (Cons k ks)
    then have k: "k \<in> set (apply_plan ?mf ?cur tv)" by simp
    from apply_plan_bounds[OF k] in_plan[OF k] show ?thesis by simp
  qed
  have "\<not> apply_range ?cur1 ?tgt k" if "k \<in> set ?vs" for k
  proof
    assume a: "apply_range ?cur1 ?tgt k"
    from apply_range_bounds[OF a] have b: "parseInt k = Fin (version_of k)"
      "?cur1 < version_of k" "js_le (Fin (version_of k)) ?tgt" by simp_all
    then have "apply_range ?cur ?tgt k" using mono by (simp add: apply_range_def js_gt_def)
    then have "k \<in> set (apply_plan ?mf ?cur tv)" using that by (simp add: apply_plan_def)
    from in_plan[OF this] b(2) show False by simp
  qed
  then show ?thesis by (simp add: apply_plan_def filter_empty_conv)
qed

lemma foldl_js_max2_attained:
  "foldl js_max2 a xs = Fin m \<Longrightarrow> a = Fin m \<or> Fin m \<in> set xs"
proof (induction xs arbitrary: a)
  case Nil
  then show ?case by simp
next
  case (Cons x xs)
  then have "js_max2 a x = Fin m \<or> Fin m \<in> set xs" by simp
  moreover have "js_max2 a x = Fin m \<Longrightarrow> a = Fin m \<or> x = Fin m"
    by (cases a; cases x) (auto simp: max_def split: if_splits)
  ultimately show ?case by auto
qed

lemma Math_max_attained: "Math_max xs = Fin m \<Longrightarrow> Fin m \<in> set xs"
  using foldl_js_max2_attained[of NegInf xs m] by (simp add: Math_max_def)

lemma latest_after_success:
  assumes "select_ok e" "readdir e d = Some files" "fst (migrate e d None w) = Inr ()"
      and "apply_plan (reduce_files files) (fst (getCurrentVersion e w)) None \<noteq> []"
  shows "Fin (fst (getCurrentVersion e (snd (migrate e d None w))))
           = Math_max (map parseInt (Array_sort cmp_asc (Object_keys (reduce_files files))))"
proof -
  let ?mf = "reduce_files files"
  let ?cur = "fst (getCurrentVersion e w)"
  let ?w1 = "snd (migrate e d None w)"
  let ?cur1 = "fst (getCurrentVersion e ?w1)"
  let ?vs = "Array_sort cmp_asc (Object_keys ?mf)"
  let ?tgt = "Math_max (map parseInt ?vs)"
  have tg: "apply_target None ?mf = ?tgt" by (simp add: apply_target_def target_of_def)
  have rows1: "rows ?w1 = rows w @ map (row_of ?mf) (apply_plan ?mf ?cur None)"
    using migrate_success[OF assms(2,3)] by simp
  obtain k0 where k0: "k0 \<in> set (apply_plan ?mf ?cur None)" using assms(4) by (cases "apply_plan ?mf ?cur None") auto
  from apply_plan_bounds[OF k0] have b0: "?cur < version_of k0" "js_le (Fin (version_of k0)) ?tgt"
    by (simp_all add: tg)
  then obtain m where m: "?tgt = Fin m" "version_of k0 \<le> m" by (cases ?tgt) auto
  from Math_max_attained[OF m(1)] have "Fin m \<in> parseInt ` set ?vs" by simp
  then obtain km where km0: "km \<in> set ?vs" "Fin m = parseInt km" by blast
  then have km: "km \<in> set ?vs" "parseInt km = Fin m" by simp_all
  have "apply_range ?cur ?tgt km" using km(2) m b0 by (simp add: apply_range_def js_gt_def)
  then have kmp: "km \<in> set (apply_plan ?mf ?cur None)" using km(1) by (simp add: apply_plan_def tg)
  have vm: "version_of km = m" using km(2) by (simp add: version_of_def)
  have "row_of ?mf km \<in> set (rows ?w1)" using kmp rows1 by simp
  from current_ge[OF assms(1) this] have ge: "m \<le> ?cur1" using vm by simp
  have le: "?cur1 \<le> m"
  proof -
    from current_cases[OF assms(1), of ?w1] consider (empty) "rows ?w1 = []"
      | (row) r where "r \<in> set (rows ?w1)" "?cur1 = fst r" by blast
    then show ?thesis
    proof cases
      case empty
      then show ?thesis using rows1 assms(4) by simp
    next
      case (row r)
      from row(1) rows1 consider (old) "r \<in> set (rows w)"
        | (new) k where "k \<in> set (apply_plan ?mf ?cur None)" "r = row_of ?mf k" by auto
      then show ?thesis
      proof cases
        case old
        from current_ge[OF assms(1) old] row(2) b0 m show ?thesis by simp
      next
        case (new k)
        from apply_plan_bounds[OF new(1)] have "js_le (Fin (version_of k)) ?tgt" by (simp add: tg)
        then show ?thesis using m(1) new(2) row(2) by simp
      qed
    qed
  qed
  show ?thesis using ge le m(1) by simp
qed

lemma migrate_loop_single:
  "filter (apply_range cur tgt) vs = [k] \<Longrightarrow>
   migrate_loop e d mf cur tgt vs w =
     (case migrate_body e d mf k (version_of k) w of
        (Inl err, w') \<Rightarrow> (Inl err, w')
      | (Inr _, w') \<Rightarrow> (Inr (), w'))"
proof (induction vs)
  case Nil
  then show ?case by simp
next
  case (Cons x rest)
  show ?case
  proof (cases "apply_range cur tgt x")
    case False
    with Cons show ?thesis by (simp add: migrate_loop_skip)
  next
    case True
    with Cons.prems have xk: "x = k" and r: "filter (apply_range cur tgt) rest = []" by simp_all
    show ?thesis using True xk migrate_loop_nothing[OF r]
      by (simp add: migrate_loop_take split: prod.splits sum.splits)
  qed
qed

lemma rollback_loop_single:
  "filter (revert_range cur tgt) vs = [k] \<Longrightarrow>
   rollback_loop e d mf cur tgt vs w =
     (case rollback_body e d mf k (version_of k) w of
        (Inl err, w') \<Rightarrow> (Inl err, w')
      | (Inr _, w') \<Rightarrow> (Inr (), w'))"
proof (induction vs)
  case Nil
  then show ?case by simp
next
  case (Cons x rest)
  show ?case
  proof (cases "revert_range cur tgt x")
    case False
    with Cons show ?thesis by (simp add: rollback_loop_skip)
  next
    case True
    with Cons.prems have xk: "x = k" and r: "filter (revert_range cur tgt) rest = []" by simp_all
    show ?thesis using True xk rollback_loop_nothing[OF r]
      by (simp add: rollback_loop_take split: prod.splits sum.splits)
  qed
qed

lemma executeMigration_accepted:
  "readFile e p = Some c \<Longrightarrow> script_ok e c \<Longrightarrow>
   executeMigration e p a w =
     (Inr (),
      logger Info (if a = ''do'' then Applied (basename p) else Reverted (basename p))
        (send CommitTransaction (send (Script c) (send BeginTransaction w))))"
  by (simp add: executeMigration_def query_script_def Let_def)

lemma setCurrentVersion_fresh:
  "v \<notin> fst ` set (rows w) \<Longrightarrow> fst (setCurrentVersion v t w) = Inr ()"
  by (simp add: setCurrentVersion_def query_create_def Let_def)

lemma migrate_body_accepted:
  assumes "map_of mf k = Some u" "do_file u = Some f" "path_join d (Some f) = Inr p"
      and "readFile e p = Some c" "script_ok e c" "v \<notin> fst ` set (rows w)"
  shows "fst (migrate_body e d mf k v w) = Inr ()"
proof -
  have p: "p = (if d = [] then f else d @ ''/'' @ f)" using assms(3) by (simp add: path_join_def)
  let ?w2 = "logger Info (if ''do'' = ''do'' then Applied (basename p) else Reverted (basename p))
        (send CommitTransaction (send (Script c) (send BeginTransaction (logger Info (Migrating_to k (title u)) w))))"
  have "migrate_body e d mf k v w = setCurrentVersion v (title u) ?w2"
    using executeMigration_accepted[OF assms(4,5), of "''do''" "logger Info (Migrating_to k (title u)) w"]
    by (simp add: migrate_body_unfold[OF assms(1,2)] p[symmetric])
  moreover have "v \<notin> fst ` set (rows ?w2)" using assms(6) by simp
  ultimately show ?thesis using setCurrentVersion_fresh[of v ?w2 "title u"] by simp
qed

lemma rollback_body_accepted:
  assumes "map_of mf k = Some u" "undo_file u = Some g" "path_join d (Some g) = Inr p"
      and "readFile e p = Some c" "script_ok e c"
  shows "fst (rollback_body e d mf k v w) = Inr ()"
proof -
  have p: "p = (if d = [] then g else d @ ''/'' @ g)" using assms(3) by (simp add: path_join_def)
  show ?thesis
    using executeMigration_accepted[OF assms(4,5), of "''undo''" "logger Info (Rolling_back k (title u)) w"]
    by (simp add: rollback_body_unfold[OF assms(1,2)] p[symmetric])
qed

lemma current_after_append:
  assumes "select_ok e" "rows w1 = rows w @ [(v, t)]" "fst (getCurrentVersion e w) < v"
  shows "fst (getCurrentVersion e w1) = v"
proof -
  have "(v, t) \<in> set (rows w1)" using assms(2) by simp
  from current_ge[OF assms(1) this] have ge: "v \<le> fst (getCurrentVersion e w1)" by simp
  have ne: "rows w1 \<noteq> []" using assms(2) by simp
  from current_cases[OF assms(1), of w1] ne
  obtain r where r: "r \<in> set (rows w1)" "fst (getCurrentVersion e w1) = fst r" by blast
  from r(1) assms(2) have "r \<in> set (rows w) \<or> r = (v, t)" by auto
  then have "fst r \<le> v"
  proof
    assume "r \<in> set (rows w)"
    from current_ge[OF assms(1) this] assms(3) show ?thesis by simp
  next
    assume "r = (v, t)"
    then show ?thesis by simp
  qed
  with ge r(2) show ?thesis by simp
qed

lemma mset_single_list: "mset xs = {#k#} \<Longrightarrow> xs = [k]"
  by (cases xs) auto

lemma single_revert_plan:
  assumes "apply_plan mf cur tv = [k]" "version_of k = cur + 1"
  shows "revert_plan mf (cur + 1) None = [k]"
proof -
  let ?A = "apply_range cur (apply_target tv mf)"
  let ?R = "revert_range (cur + 1) (revert_target None (cur + 1))"
  have kin: "k \<in> set (apply_plan mf cur tv)" using assms(1) by simp
  from apply_plan_bounds[OF kin] have kb: "parseInt k = Fin (cur + 1)"
    "js_le (Fin (cur + 1)) (apply_target tv mf)" using assms(2) by simp_all
  have rt: "revert_target None (cur + 1) = Fin cur" by (simp add: revert_target_def target_of_def)
  have R_iff: "?R x = (parseInt x = Fin (cur + 1))" for x
    by (cases "parseInt x") (auto simp: revert_range_def rt js_gt_def)
  have RA: "?R x \<Longrightarrow> ?A x" for x
    using kb(2) by (simp add: R_iff apply_range_def js_gt_def)
  have "mset (filter ?A (map fst mf)) = {#k#}"
    using apply_plan_mset[of mf cur tv] assms(1) by simp
  then have fa: "filter ?A (map fst mf) = [k]" by (rule mset_single_list)
  have "filter ?R (map fst mf) = filter ?R (filter ?A (map fst mf))"
    using RA by (auto intro: filter_cong)
  also have "\<dots> = [k]" using kb(1) by (simp add: fa R_iff)
  finally have "mset (revert_plan mf (cur + 1) None) = {#k#}"
    using revert_plan_mset[of mf "cur + 1" None] by simp
  then show ?thesis by (rule mset_single_list)
qed

subsection \<open>The keys of the discovered units\<close>







lemma update_unit_keys [simp]: "map fst (update_unit k f acc) = map fst acc"
  by (induction acc) auto









subsection \<open>The scripts of a completed run\<close>








subsection \<open>A run that ends with the error of a script\<close>





section \<open>The claims\<close>








text \<open>
  Claim C4. In every state reachable by the commands, the versions of the ledger rows are
  pairwise distinct; and there, \<^verbatim>\<open>setCurrentVersion\<close> on a version that is already in
  the ledger fails: the \<^verbatim>\<open>CREATE\<close> is rejected by the unique index, the failure is
  logged and thrown again, and the ledger is unchanged.
\<close>

theorem ledger_versions_unique:
  assumes "reachable w"
  shows "distinct (map fst (rows w))
       \<and> (\<forall>v\<in>fst ` set (rows w). \<forall>t.
             setCurrentVersion v t w
               = (Inl (DbError (CreateRow v (if t \<noteq> [] then Some t else None))),
                  logger Error Failed_to_set_version
                    (send (CreateRow v (if t \<noteq> [] then Some t else None)) w))
           \<and> rows (snd (setCurrentVersion v t w)) = rows w)"
proof -
  have i: "ledger_inv w" by (rule reachable_inv[OF assms])
  then have d: "distinct (map fst (rows w))" by (simp add: ledger_inv_def)
  have "\<forall>v\<in>fst ` set (rows w). \<forall>t.
             setCurrentVersion v t w
               = (Inl (DbError (CreateRow v (if t \<noteq> [] then Some t else None))),
                  logger Error Failed_to_set_version
                    (send (CreateRow v (if t \<noteq> [] then Some t else None)) w))
           \<and> rows (snd (setCurrentVersion v t w)) = rows w"
  proof (intro ballI allI)
    fix v t assume v: "v \<in> fst ` set (rows w)"
    then have "rows w \<noteq> []" by auto
    with i have "index_version w" by (simp add: ledger_inv_def)
    from setCurrentVersion_duplicate[OF this v, of t]
    show "setCurrentVersion v t w
               = (Inl (DbError (CreateRow v (if t \<noteq> [] then Some t else None))),
                  logger Error Failed_to_set_version
                    (send (CreateRow v (if t \<noteq> [] then Some t else None)) w))
           \<and> rows (snd (setCurrentVersion v t w)) = rows w" by simp
  qed
  with d show ?thesis by blast
qed

theorem ledger_versions_unique_witness:
  "reachable (snd (migrate (example_env files3 []) ''migrations'' None empty_world))
   \<and> rows (snd (migrate (example_env files3 []) ''migrations'' None empty_world))
       = [(1, Some ''a''), (2, Some ''b''), (3, Some ''c'')]
   \<and> distinct (map fst (rows (snd (migrate (example_env files3 []) ''migrations'' None empty_world))))
   \<and> fst (setCurrentVersion 2 ''again''
            (snd (migrate (example_env files3 []) ''migrations'' None empty_world)))
       = Inl (DbError (CreateRow 2 (Some ''again'')))
   \<and> rows (snd (setCurrentVersion 2 ''again''
                  (snd (migrate (example_env files3 []) ''migrations'' None empty_world))))
       = rows (snd (migrate (example_env files3 []) ''migrations'' None empty_world))"
proof -
  let ?w = "snd (migrate (example_env files3 []) ''migrations'' None empty_world)"
  have r: "reachable ?w" by (rule reach_migrate[OF reach_start])
  have rw: "rows ?w = [(1, Some ''a''), (2, Some ''b''), (3, Some ''c'')]" by code_simp
  then have m: "2 \<in> fst ` set (rows ?w)" by simp
  from ledger_versions_unique[OF r] have d: "distinct (map fst (rows ?w))"
    and a: "\<forall>v\<in>fst ` set (rows ?w). \<forall>t.
             setCurrentVersion v t ?w
               = (Inl (DbError (CreateRow v (if t \<noteq> [] then Some t else None))),
                  logger Error Failed_to_set_version
                    (send (CreateRow v (if t \<noteq> [] then Some t else None)) ?w))
           \<and> rows (snd (setCurrentVersion v t ?w)) = rows ?w"
    by blast+
  from a m have "setCurrentVersion 2 ''again'' ?w
               = (Inl (DbError (CreateRow 2 (if ''again'' \<noteq> [] then Some ''again'' else None))),
                  logger Error Failed_to_set_version
                    (send (CreateRow 2 (if ''again'' \<noteq> [] then Some ''again'' else None)) ?w))
           \<and> rows (snd (setCurrentVersion 2 ''again'' ?w)) = rows ?w"
    by blast
  then have "fst (setCurrentVersion 2 ''again'' ?w) = Inl (DbError (CreateRow 2 (Some ''again'')))"
    "rows (snd (setCurrentVersion 2 ''again'' ?w)) = rows ?w"
    by simp_all
  with r rw d show ?thesis by (intro conjI) assumption+
qed

text \<open>
  Claim C5. Once connected and with a readable directory: when the target of
  \<^verbatim>\<open>migrate\<close> is strictly below the current version, \<^verbatim>\<open>migrate\<close> returns normally, its
  last message is the warning that tells to use rollback, the apply plan is empty, no
  key is started, no script is sent and the ledger is unchanged; when the target of
  \<^verbatim>\<open>rollback\<close> is greater than or equal to the current version, \<^verbatim>\<open>rollback\<close> returns
  normally with the warning that tells to use migrate, and likewise does nothing.
\<close>

theorem direction_guard:
  assumes "connect_ok e" and "readdir e d = Some files"
  shows "(js_lt (apply_target tv (reduce_files files)) (Fin (fst (getCurrentVersion e w))) \<longrightarrow>
            fst (migrate e d tv w) = Inr ()
          \<and> last (logged (snd (migrate e d tv w)))
              = (Warn, Use_rollback (fst (getCurrentVersion e w)) (apply_target tv (reduce_files files)))
          \<and> apply_plan (reduce_files files) (fst (getCurrentVersion e w)) tv = []
          \<and> started (snd (migrate e d tv w)) = started w
          \<and> scripts_sent (snd (migrate e d tv w)) = scripts_sent w
          \<and> rows (snd (migrate e d tv w)) = rows w)
       \<and> (js_ge (revert_target tv (fst (getCurrentVersion e w))) (Fin (fst (getCurrentVersion e w))) \<longrightarrow>
            fst (rollback e d tv w) = Inr ()
          \<and> last (logged (snd (rollback e d tv w)))
              = (Warn, Use_migrate (revert_target tv (fst (getCurrentVersion e w))) (fst (getCurrentVersion e w)))
          \<and> revert_plan (reduce_files files) (fst (getCurrentVersion e w)) tv = []
          \<and> started (snd (rollback e d tv w)) = started w
          \<and> scripts_sent (snd (rollback e d tv w)) = scripts_sent w
          \<and> rows (snd (rollback e d tv w)) = rows w)"
  using apply_below_current_warns[OF assms] revert_not_below_current_warns[OF assms]
  by (intro conjI impI) blast+

theorem direction_guard_witness:
  "connect_ok (example_env files678 [])
   \<and> readdir (example_env files678 []) ''migrations'' = Some files678
   \<and> fst (getCurrentVersion (example_env files678 []) world_at_5) = 5
   \<and> apply_target (Some ''3'') (reduce_files files678) = Fin 3
   \<and> fst (migrate (example_env files678 []) ''migrations'' (Some ''3'') world_at_5) = Inr ()
   \<and> last (logged (snd (migrate (example_env files678 []) ''migrations'' (Some ''3'') world_at_5)))
       = (Warn, Use_rollback 5 (Fin 3))
   \<and> rows (snd (migrate (example_env files678 []) ''migrations'' (Some ''3'') world_at_5))
       = rows world_at_5
   \<and> revert_target (Some ''7'') 5 = Fin 7
   \<and> fst (rollback (example_env files678 []) ''migrations'' (Some ''7'') world_at_5) = Inr ()
   \<and> last (logged (snd (rollback (example_env files678 []) ''migrations'' (Some ''7'') world_at_5)))
       = (Warn, Use_migrate (Fin 7) 5)
   \<and> rows (snd (rollback (example_env files678 []) ''migrations'' (Some ''7'') world_at_5))
       = rows world_at_5"
proof -
  let ?e = "example_env files678 []"
  have c: "connect_ok ?e" by (simp add: example_env_def)
  have h: "readdir ?e ''migrations'' = Some files678" by (simp add: example_env_def)
  have cur: "fst (getCurrentVersion ?e world_at_5) = 5" by code_simp
  have ta: "apply_target (Some ''3'') (reduce_files files678) = Fin 3" by code_simp
  have tr: "revert_target (Some ''7'') 5 = Fin 7" by code_simp
  have la: "js_lt (apply_target (Some ''3'') (reduce_files files678)) (Fin (fst (getCurrentVersion ?e world_at_5)))"
    by (simp add: ta cur)
  have lr: "js_ge (revert_target (Some ''7'') (fst (getCurrentVersion ?e world_at_5)))
              (Fin (fst (getCurrentVersion ?e world_at_5)))"
    by (simp add: tr cur js_ge_def)
  from direction_guard[OF c h, of "Some ''3''" world_at_5] la
  have a: "fst (migrate ?e ''migrations'' (Some ''3'') world_at_5) = Inr ()"
    "last (logged (snd (migrate ?e ''migrations'' (Some ''3'') world_at_5)))
       = (Warn, Use_rollback (fst (getCurrentVersion ?e world_at_5)) (apply_target (Some ''3'') (reduce_files files678)))"
    "rows (snd (migrate ?e ''migrations'' (Some ''3'') world_at_5)) = rows world_at_5"
    by blast+
  from direction_guard[OF c h, of "Some ''7''" world_at_5] lr
  have r: "fst (rollback ?e ''migrations'' (Some ''7'') world_at_5) = Inr ()"
    "last (logged (snd (rollback ?e ''migrations'' (Some ''7'') world_at_5)))
       = (Warn, Use_migrate (revert_target (Some ''7'') (fst (getCurrentVersion ?e world_at_5))) (fst (getCurrentVersion ?e world_at_5)))"
    "rows (snd (rollback ?e ''migrations'' (Some ''7'') world_at_5)) = rows world_at_5"
    by blast+
  show ?thesis using c h cur ta tr a r by simp
qed

text \<open>
  Claim C6 asks for a defined sentinel as \<open>latestVersion\<close> when no migration file is
  discovered. On the empty directory and the empty ledger, \<^verbatim>\<open>getInfo\<close> returns current
  version 0, no pending migration, and \<open>latestVersion = -Infinity\<close>, the value of
  \<^verbatim>\<open>Math.max()\<close> without arguments.
\<close>

theorem getInfo_empty_directory:
  "fst (getInfo (example_env [] []) ''migrations'' empty_world)
     = Inr \<lparr>currentVersion = 0, currentVersionTitle = Some ''No migrations applied'',
            latestVersion = NegInf, pendingMigrations = []\<rparr>"
  by code_simp




text \<open>
  Claim C8. Let the ledger be readable and at version \<open>N - 1\<close>, and let the apply plan be
  the single key \<open>k\<close> of version \<open>N\<close>, whose unit has a forward and a backward script that
  the database accepts. Then \<^verbatim>\<open>migrate\<close> completes, appends the row of \<open>k\<close> and brings the
  current version to \<open>N\<close>; \<^verbatim>\<open>rollback\<close> without target, run next, completes, executes
  \<open>k\<close>, and leaves the ledger rows as they were before the apply, the current version
  being \<open>N - 1\<close> again.
\<close>

theorem apply_then_revert_restores_ledger:
  assumes "connect_ok e" and "select_ok e" and "readdir e d = Some files"
      and "apply_plan (reduce_files files) (fst (getCurrentVersion e w)) tv = [k]"
      and "version_of k = fst (getCurrentVersion e w) + 1"
      and "map_of (reduce_files files) k = Some u"
      and "do_file u = Some f" and "path_join d (Some f) = Inr pf"
      and "readFile e pf = Some cf" and "script_ok e cf"
      and "undo_file u = Some g" and "path_join d (Some g) = Inr pg"
      and "readFile e pg = Some cg" and "script_ok e cg"
  shows "fst (migrate e d tv w) = Inr ()
       \<and> rows (snd (migrate e d tv w)) = rows w @ [row_of (reduce_files files) k]
       \<and> fst (getCurrentVersion e (snd (migrate e d tv w))) = version_of k
       \<and> fst (rollback e d None (snd (migrate e d tv w))) = Inr ()
       \<and> started (snd (rollback e d None (snd (migrate e d tv w))))
           = started (snd (migrate e d tv w)) @ [k]
       \<and> rows (snd (rollback e d None (snd (migrate e d tv w)))) = rows w
       \<and> fst (getCurrentVersion e (snd (rollback e d None (snd (migrate e d tv w)))))
           = version_of k - 1"
proof -
  let ?mf = "reduce_files files"
  let ?cur = "fst (getCurrentVersion e w)"
  let ?n = "version_of k"
  let ?w1 = "snd (migrate e d tv w)"
  let ?w2 = "snd (rollback e d None ?w1)"
  let ?wa = "snd (getCurrentVersion e (snd (connectToDatabase e w)))"
  have fresh: "?n \<notin> fst ` set (rows w)"
  proof
    assume "?n \<in> fst ` set (rows w)"
    then obtain r where "r \<in> set (rows w)" "fst r = ?n" by auto
    with current_ge[OF assms(2), of r w] assms(5) show False by simp
  qed
  have m_ok: "fst (migrate e d tv w) = Inr ()"
    using assms(3)
  proof (cases rule: migrate_cases[where tv=tv and w=w])
    case exit
    then show ?thesis using assms(1) by simp
  next
    case low
    then show ?thesis by simp
  next
    case same
    then show ?thesis by simp
  next
    case run
    have fl: "filter (apply_range ?cur (apply_target tv ?mf)) (Array_sort cmp_asc (Object_keys ?mf)) = [k]"
      using assms(4) by (simp add: apply_plan_def)
    have "?n \<notin> fst ` set (rows ?wa)" using fresh by (simp add: before_loop_frame)
    from migrate_body_accepted[OF assms(6,7,8,9,10) this]
    have "fst (migrate_body e d ?mf k ?n ?wa) = Inr ()" .
    then show ?thesis unfolding run(4) migrate_loop_single[OF fl]
      by (auto split: prod.splits sum.splits)
  qed
  have rows1: "rows ?w1 = rows w @ [row_of ?mf k]"
    using migrate_success[OF assms(3) m_ok] assms(4) by simp
  have rk: "row_of ?mf k = (?n, snd (row_of ?mf k))" by (simp add: row_of_def)
  have cur1: "fst (getCurrentVersion e ?w1) = ?n"
    using current_after_append[OF assms(2), of ?w1 w ?n "snd (row_of ?mf k)"] rows1 rk assms(5)
    by simp
  have rp: "revert_plan ?mf ?n None = [k]"
    using single_revert_plan[OF assms(4)] assms(5) by simp
  let ?wb = "snd (getCurrentVersion e (snd (connectToDatabase e ?w1)))"
  have r_ok: "fst (rollback e d None ?w1) = Inr ()"
    using assms(3)
  proof (cases rule: rollback_cases[where tv=None and w="?w1"])
    case exit
    then show ?thesis using assms(1) by simp
  next
    case high
    then show ?thesis by simp
  next
    case run
    have fl: "filter (revert_range (fst (getCurrentVersion e ?w1)) (revert_target None (fst (getCurrentVersion e ?w1))))
                (Array_sort cmp_desc (Object_keys ?mf)) = [k]"
      using rp cur1 by (simp add: revert_plan_def)
    from rollback_body_accepted[OF assms(6,11,12,13,14)]
    have "fst (rollback_body e d ?mf k ?n ?wb) = Inr ()" .
    then show ?thesis unfolding run(3) rollback_loop_single[OF fl]
      by (auto split: prod.splits sum.splits)
  qed
  from rollback_success[OF assms(3) r_ok] rp cur1
  have st2: "started ?w2 = started ?w1 @ [k]"
    and rows2': "rows ?w2 = filter (\<lambda>r. fst r \<notin> version_of ` set [k]) (rows ?w1)" by simp_all
  have "filter (\<lambda>r. fst r \<noteq> ?n) (rows w) = rows w"
    using fresh by (force simp: filter_id_conv)
  then have rows2: "rows ?w2 = rows w" using rows2' rows1 by simp
  have cur2: "fst (getCurrentVersion e ?w2) = ?n - 1"
    using getCurrentVersion_cong[OF rows2, of e] assms(5) by simp
  show ?thesis using m_ok rows1 cur1 r_ok st2 rows2 cur2 by (intro conjI) assumption+
qed

theorem apply_then_revert_restores_ledger_witness:
  "connect_ok (example_env files3 []) \<and> select_ok (example_env files3 [])
   \<and> readdir (example_env files3 []) ''migrations'' = Some files3
   \<and> apply_plan (reduce_files files3) (fst (getCurrentVersion (example_env files3 []) empty_world))
         (Some ''1'') = [''1'']
   \<and> version_of ''1'' = fst (getCurrentVersion (example_env files3 []) empty_world) + 1
   \<and> map_of (reduce_files files3) ''1''
       = Some \<lparr>title = ''a'', do_file = Some ''1.do.a.surql'', undo_file = Some ''1.undo.a.surql''\<rparr>
   \<and> rows (snd (migrate (example_env files3 []) ''migrations'' (Some ''1'') empty_world))
       = rows empty_world @ [row_of (reduce_files files3) ''1'']
   \<and> row_of (reduce_files files3) ''1'' = (1, Some ''a'')
   \<and> fst (rollback (example_env files3 []) ''migrations'' None
            (snd (migrate (example_env files3 []) ''migrations'' (Some ''1'') empty_world))) = Inr ()
   \<and> rows (snd (rollback (example_env files3 []) ''migrations'' None
                  (snd (migrate (example_env files3 []) ''migrations'' (Some ''1'') empty_world))))
       = rows empty_world
   \<and> fst (getCurrentVersion (example_env files3 [])
            (snd (rollback (example_env files3 []) ''migrations'' None
                    (snd (migrate (example_env files3 []) ''migrations'' (Some ''1'') empty_world)))))
       = version_of ''1'' - 1"
proof -
  let ?e = "example_env files3 []"
  let ?u = "\<lparr>title = ''a'', do_file = Some ''1.do.a.surql'', undo_file = Some ''1.undo.a.surql''\<rparr>"
  have c: "connect_ok ?e" and s: "select_ok ?e" by (simp_all add: example_env_def)
  have h: "readdir ?e ''migrations'' = Some files3" by (simp add: example_env_def)
  have p: "apply_plan (reduce_files files3) (fst (getCurrentVersion ?e empty_world)) (Some ''1'') = [''1'']"
    by code_simp
  have v: "version_of ''1'' = fst (getCurrentVersion ?e empty_world) + 1" by code_simp
  have u: "map_of (reduce_files files3) ''1'' = Some ?u" by code_simp
  have f: "do_file ?u = Some ''1.do.a.surql''" and g: "undo_file ?u = Some ''1.undo.a.surql''"
    by simp_all
  have pf: "path_join ''migrations'' (Some ''1.do.a.surql'') = Inr ''migrations/1.do.a.surql''"
    and pg: "path_join ''migrations'' (Some ''1.undo.a.surql'') = Inr ''migrations/1.undo.a.surql''"
    by (simp_all add: path_join_def)
  have cf: "readFile ?e ''migrations/1.do.a.surql'' = Some ''migrations/1.do.a.surql''"
    and cg: "readFile ?e ''migrations/1.undo.a.surql'' = Some ''migrations/1.undo.a.surql''"
    by (simp_all add: example_env_def)
  have okf: "script_ok ?e ''migrations/1.do.a.surql''"
    and okg: "script_ok ?e ''migrations/1.undo.a.surql''"
    by (simp_all add: example_env_def)
  have ro: "row_of (reduce_files files3) ''1'' = (1, Some ''a'')" by code_simp
  from apply_then_revert_restores_ledger[OF c s h p v u f pf cf okf g pg cg okg]
  have "rows (snd (migrate ?e ''migrations'' (Some ''1'') empty_world))
          = rows empty_world @ [row_of (reduce_files files3) ''1'']"
    "fst (rollback ?e ''migrations'' None (snd (migrate ?e ''migrations'' (Some ''1'') empty_world)))
          = Inr ()"
    "rows (snd (rollback ?e ''migrations'' None (snd (migrate ?e ''migrations'' (Some ''1'') empty_world))))
          = rows empty_world"
    "fst (getCurrentVersion ?e
            (snd (rollback ?e ''migrations'' None (snd (migrate ?e ''migrations'' (Some ''1'') empty_world)))))
          = version_of ''1'' - 1"
    by blast+
  with c s h p v u ro show ?thesis by (intro conjI) assumption+
qed

text \<open>
  Claim C9. With a readable ledger: after a run of \<^verbatim>\<open>migrate\<close> without target that
  completes, the apply plan computed from the new current version is empty, and a second
  run over the same files completes, starts no key, sends no script and leaves the ledger
  unchanged. When the first run had something to apply, the current version after it is
  the greatest discovered version.
\<close>

theorem apply_to_latest_twice_is_noop:
  assumes "select_ok e" and "readdir e d = Some files" and "fst (migrate e d None w) = Inr ()"
  shows "apply_plan (reduce_files files) (fst (getCurrentVersion e (snd (migrate e d None w)))) None = []
       \<and> fst (migrate e d None (snd (migrate e d None w))) = Inr ()
       \<and> started (snd (migrate e d None (snd (migrate e d None w)))) = started (snd (migrate e d None w))
       \<and> scripts_sent (snd (migrate e d None (snd (migrate e d None w))))
           = scripts_sent (snd (migrate e d None w))
       \<and> rows (snd (migrate e d None (snd (migrate e d None w)))) = rows (snd (migrate e d None w))
       \<and> (apply_plan (reduce_files files) (fst (getCurrentVersion e w)) None \<noteq> [] \<longrightarrow>
            Fin (fst (getCurrentVersion e (snd (migrate e d None w))))
              = Math_max (map parseInt (Array_sort cmp_asc (Object_keys (reduce_files files)))))"
proof -
  have c: "connect_ok e" using assms(3) by (cases "connect_ok e") (auto simp: migrate_not_connected)
  have p: "apply_plan (reduce_files files) (fst (getCurrentVersion e (snd (migrate e d None w)))) None = []"
    by (rule plan_after_success_empty[OF assms])
  from migrate_empty_plan[OF c assms(2) p] p latest_after_success[OF assms]
  show ?thesis by blast
qed

theorem apply_to_latest_twice_is_noop_witness:
  "select_ok (example_env files3 [])
   \<and> readdir (example_env files3 []) ''migrations'' = Some files3
   \<and> fst (migrate (example_env files3 []) ''migrations'' None empty_world) = Inr ()
   \<and> rows (snd (migrate (example_env files3 []) ''migrations'' None empty_world))
       = [(1, Some ''a''), (2, Some ''b''), (3, Some ''c'')]
   \<and> fst (migrate (example_env files3 []) ''migrations'' None
            (snd (migrate (example_env files3 []) ''migrations'' None empty_world))) = Inr ()
   \<and> scripts_sent (snd (migrate (example_env files3 []) ''migrations'' None
                          (snd (migrate (example_env files3 []) ''migrations'' None empty_world))))
       = scripts_sent (snd (migrate (example_env files3 []) ''migrations'' None empty_world))
   \<and> rows (snd (migrate (example_env files3 []) ''migrations'' None
                  (snd (migrate (example_env files3 []) ''migrations'' None empty_world))))
       = rows (snd (migrate (example_env files3 []) ''migrations'' None empty_world))"
proof -
  let ?e = "example_env files3 []"
  have s: "select_ok ?e" by (simp add: example_env_def)
  have h: "readdir ?e ''migrations'' = Some files3" by (simp add: example_env_def)
  have ok: "fst (migrate ?e ''migrations'' None empty_world) = Inr ()" by code_simp
  have r: "rows (snd (migrate ?e ''migrations'' None empty_world))
             = [(1, Some ''a''), (2, Some ''b''), (3, Some ''c'')]" by code_simp
  from apply_to_latest_twice_is_noop[OF s h ok]
  have "fst (migrate ?e ''migrations'' None (snd (migrate ?e ''migrations'' None empty_world))) = Inr ()"
    "scripts_sent (snd (migrate ?e ''migrations'' None (snd (migrate ?e ''migrations'' None empty_world))))
       = scripts_sent (snd (migrate ?e ''migrations'' None empty_world))"
    "rows (snd (migrate ?e ''migrations'' None (snd (migrate ?e ''migrations'' None empty_world))))
       = rows (snd (migrate ?e ''migrations'' None empty_world))"
    by blast+
  with s h ok r show ?thesis by (intro conjI) assumption+
qed

text \<open>
  Claim C10. When the ledger query fails, \<^verbatim>\<open>getCurrentVersion\<close> logs the error and
  returns 0. A run of \<^verbatim>\<open>migrate\<close> then plans from version 0 whatever the ledger holds:
  it starts a prefix of the apply plan computed from 0, all of it when it completes, and
  once connected it always starts the first key of that plan.
\<close>

theorem unreadable_ledger_plans_from_zero:
  assumes "\<not> select_ok e"
  shows "getCurrentVersion e w = (0, logger Error Failed_to_get_version (send SelectLatest w))
       \<and> (readdir e d = Some files \<longrightarrow>
            (\<exists>ys. prefix ys (apply_plan (reduce_files files) 0 tv)
                 \<and> started (snd (migrate e d tv w)) = started w @ ys)
          \<and> (fst (migrate e d tv w) = Inr () \<longrightarrow>
                started (snd (migrate e d tv w)) = started w @ apply_plan (reduce_files files) 0 tv)
          \<and> (\<forall>k post. connect_ok e \<and> apply_plan (reduce_files files) 0 tv = k # post \<longrightarrow>
                (\<exists>ys. started (snd (migrate e d tv w)) = started w @ k # ys)))"
proof -
  have z: "getCurrentVersion e w = (0, logger Error Failed_to_get_version (send SelectLatest w))"
    by (rule getCurrentVersion_unreadable[OF assms])
  then have c0: "fst (getCurrentVersion e w) = 0" by simp
  have "readdir e d = Some files \<longrightarrow>
            (\<exists>ys. prefix ys (apply_plan (reduce_files files) 0 tv)
                 \<and> started (snd (migrate e d tv w)) = started w @ ys)
          \<and> (fst (migrate e d tv w) = Inr () \<longrightarrow>
                started (snd (migrate e d tv w)) = started w @ apply_plan (reduce_files files) 0 tv)
          \<and> (\<forall>k post. connect_ok e \<and> apply_plan (reduce_files files) 0 tv = k # post \<longrightarrow>
                (\<exists>ys. started (snd (migrate e d tv w)) = started w @ k # ys))"
  proof
    assume h: "readdir e d = Some files"
    have p1: "\<exists>ys. prefix ys (apply_plan (reduce_files files) 0 tv)
                 \<and> started (snd (migrate e d tv w)) = started w @ ys"
      using migrate_started_prefix[OF h, of w tv] c0 by simp
    have p2: "fst (migrate e d tv w) = Inr () \<longrightarrow>
                started (snd (migrate e d tv w)) = started w @ apply_plan (reduce_files files) 0 tv"
      using migrate_success[OF h, of tv w] c0 by simp
    have p3: "\<forall>k post. connect_ok e \<and> apply_plan (reduce_files files) 0 tv = k # post \<longrightarrow>
                (\<exists>ys. started (snd (migrate e d tv w)) = started w @ k # ys)"
      using migrate_starts_first[OF _ h, of w tv] c0 by simp
    show "(\<exists>ys. prefix ys (apply_plan (reduce_files files) 0 tv)
                 \<and> started (snd (migrate e d tv w)) = started w @ ys)
          \<and> (fst (migrate e d tv w) = Inr () \<longrightarrow>
                started (snd (migrate e d tv w)) = started w @ apply_plan (reduce_files files) 0 tv)
          \<and> (\<forall>k post. connect_ok e \<and> apply_plan (reduce_files files) 0 tv = k # post \<longrightarrow>
                (\<exists>ys. started (snd (migrate e d tv w)) = started w @ k # ys))"
      using p1 p2 p3 by blast
  qed
  with z show ?thesis by blast
qed

theorem unreadable_ledger_plans_from_zero_witness:
  "\<not> select_ok ((example_env files56 [])\<lparr>select_ok := False\<rparr>)
   \<and> readdir ((example_env files56 [])\<lparr>select_ok := False\<rparr>) ''migrations'' = Some files56
   \<and> connect_ok ((example_env files56 [])\<lparr>select_ok := False\<rparr>)
   \<and> rows world_at_5 = [(5, Some ''e'')]
   \<and> fst (getCurrentVersion ((example_env files56 [])\<lparr>select_ok := False\<rparr>) world_at_5) = 0
   \<and> apply_plan (reduce_files files56) 0 None = ''5'' # [''6'']
   \<and> (\<exists>ys. started (snd (migrate ((example_env files56 [])\<lparr>select_ok := False\<rparr>) ''migrations''
                            None world_at_5))
             = started world_at_5 @ ''5'' # ys)
   \<and> scripts_sent (snd (migrate ((example_env files56 [])\<lparr>select_ok := False\<rparr>) ''migrations''
                          None world_at_5))
       = [''migrations/5.do.e.surql'']
   \<and> fst (migrate ((example_env files56 [])\<lparr>select_ok := False\<rparr>) ''migrations'' None world_at_5)
       = Inl (DbError (CreateRow 5 (Some ''e'')))"
proof -
  let ?e = "(example_env files56 [])\<lparr>select_ok := False\<rparr>"
  have n: "\<not> select_ok ?e" by simp
  have h: "readdir ?e ''migrations'' = Some files56" by (simp add: example_env_def)
  have c: "connect_ok ?e" by (simp add: example_env_def)
  have r: "rows world_at_5 = [(5, Some ''e'')]" by (simp add: world_at_5_def)
  have p: "apply_plan (reduce_files files56) 0 None = ''5'' # [''6'']" by code_simp
  have s: "scripts_sent (snd (migrate ?e ''migrations'' None world_at_5)) = [''migrations/5.do.e.surql'']"
    by code_simp
  have f: "fst (migrate ?e ''migrations'' None world_at_5) = Inl (DbError (CreateRow 5 (Some ''e'')))"
    by code_simp
  from unreadable_ledger_plans_from_zero[OF n, of world_at_5 "''migrations''" files56 None]
  have g: "fst (getCurrentVersion ?e world_at_5) = 0"
    and "\<forall>k post. connect_ok ?e \<and> apply_plan (reduce_files files56) 0 None = k # post \<longrightarrow>
                (\<exists>ys. started (snd (migrate ?e ''migrations'' None world_at_5)) = started world_at_5 @ k # ys)"
    using h by simp_all
  then have "\<exists>ys. started (snd (migrate ?e ''migrations'' None world_at_5)) = started world_at_5 @ ''5'' # ys"
    using c p by blast
  with n h c r g p s f show ?thesis by (intro conjI) assumption+
qed

end
